theory Spec2Isabelle
  imports Main "HOL-Library.Word" "HOL-Library.Code_Target_Numeral"
begin

section \<open>Go runtime values: errors and panics\<close>

text \<open>
  The package returns Go \<^verbatim>\<open>error\<close> values: its own \<^verbatim>\<open>ErrInvalidMagnet\<close> and, unmodified,
  the errors of the standard library calls it makes (\<^verbatim>\<open>strconv\<close>, \<^verbatim>\<open>encoding/base32\<close>,
  \<^verbatim>\<open>encoding/hex\<close>, \<^verbatim>\<open>net/url\<close>). A run-time panic (index out of range, slice bounds out of
  range, assignment to an entry of a nil map) is not an error value: it unwinds the caller.
  Both are outcomes of the model, kept apart by the type \<open>abort\<close>.
\<close>

datatype error =
    ErrInvalidMagnet
  | NumError_ErrSyntax
  | NumError_ErrRange
  | CorruptInputError nat
  | InvalidByteError char
  | ErrLength
  | EscapeError string
  | URLError string

datatype panic =
    IndexOutOfRange
  | SliceBoundsOutOfRange
  | NilMapAssignment

datatype abort = Err error | Panic panic

type_synonym byte = "8 word"

section \<open>The standard library functions the package calls\<close>

subsection \<open>Package strings\<close>

text \<open>
  A Go string is a sequence of bytes; \<^verbatim>\<open>len\<close>, indexing and slicing count bytes. It is a
  \<open>string\<close> here (a list of 8-bit characters).

  \<^verbatim>\<open>strings.HasPrefix(s, prefix)\<close> is
  \<^verbatim>\<open>len(s) >= len(prefix) && s[:len(prefix)] == prefix\<close>.
\<close>

definition HasPrefix :: "string \<Rightarrow> string \<Rightarrow> bool" where
  "HasPrefix s pre = (length pre \<le> length s \<and> take (length pre) s = pre)"

text \<open>\<^verbatim>\<open>strings.Index(s, sep)\<close>: the byte index of the first instance of \<open>sep\<close> in \<open>s\<close>,
  \<open>None\<close> for Go's \<open>-1\<close>.\<close>

fun Index :: "string \<Rightarrow> string \<Rightarrow> nat option" where
  "Index [] sep = (if sep = [] then Some 0 else None)"
| "Index (c # cs) sep =
     (if HasPrefix (c # cs) sep then Some 0 else map_option Suc (Index cs sep))"

text \<open>\<^verbatim>\<open>strings.Count(s, sep)\<close> for a non-empty separator: the number of non-overlapping
  instances of \<open>sep\<close> in \<open>s\<close>, found left to right. Every call site of this package passes a
  non-empty literal separator; Go's rune count for the empty separator is not modelled, and
  the bound \<open>n\<close> below is the number of bytes still to scan.\<close>

fun CountLoop :: "nat \<Rightarrow> string \<Rightarrow> string \<Rightarrow> nat" where
  "CountLoop 0 s sep = 0"
| "CountLoop (Suc n) s sep =
     (case Index s sep of
        None \<Rightarrow> 0
      | Some i \<Rightarrow> Suc (CountLoop n (drop (i + length sep) s) sep))"

definition Count :: "string \<Rightarrow> string \<Rightarrow> nat" where
  "Count s sep = CountLoop (length s) s sep"

text \<open>
  \<^verbatim>\<open>strings.genSplit(s, sep, sepSave, n)\<close>, the worker behind \<^verbatim>\<open>Split\<close> and \<^verbatim>\<open>SplitAfterN\<close>:
  \<^verbatim>\<open>
  if n == 0 { return nil }
  if sep == "" { return explode(s, n) }
  if n < 0 { n = Count(s, sep) + 1 }
  if n > len(s)+1 { n = len(s) + 1 }
  a := make([]string, n)
  n--
  i := 0
  for i < n {
      m := Index(s, sep)
      if m < 0 { break }
      a[i] = s[:m+sepSave]
      s = s[m+len(sep):]
      i++
  }
  a[i] = s
  return a[:i+1]
  \<close>
  \<open>genSplitLoop\<close> is the \<^verbatim>\<open>for\<close> loop, its first argument the number \<open>n - i\<close> of rounds left.
  The branch for the empty separator is left out: the package never takes it.
\<close>

fun genSplitLoop :: "nat \<Rightarrow> string \<Rightarrow> string \<Rightarrow> nat \<Rightarrow> string list" where
  "genSplitLoop 0 s sep sepSave = [s]"
| "genSplitLoop (Suc k) s sep sepSave =
     (case Index s sep of
        None \<Rightarrow> [s]
      | Some m \<Rightarrow> take (m + sepSave) s # genSplitLoop k (drop (m + length sep) s) sep sepSave)"

definition genSplit :: "string \<Rightarrow> string \<Rightarrow> nat \<Rightarrow> int \<Rightarrow> string list" where
  "genSplit s sep sepSave n =
     (if n = 0 then []
      else
        let n1 = (if n < 0 then int (Count s sep) + 1 else n);
            n2 = (if n1 > int (length s) + 1 then int (length s) + 1 else n1)
        in genSplitLoop (nat (n2 - 1)) s sep sepSave)"

definition Split :: "string \<Rightarrow> string \<Rightarrow> string list" where
  "Split s sep = genSplit s sep 0 (- 1)"

definition SplitAfterN :: "string \<Rightarrow> string \<Rightarrow> int \<Rightarrow> string list" where
  "SplitAfterN s sep n = genSplit s sep (length sep) n"

text \<open>
  \<^verbatim>\<open>strings.ToLower\<close>. On a string of ASCII bytes only it maps \<open>A\<close>..\<open>Z\<close> to \<open>a\<close>..\<open>z\<close> byte by
  byte. On any other string it applies Unicode's lower-case mapping rune by rune, which may
  change the length in bytes; that mapping is a table of the Go distribution and is the
  parameter \<open>unicode_ToLower\<close> of the library record below.
\<close>

definition isASCII :: "string \<Rightarrow> bool" where
  "isASCII s = list_all (\<lambda>c. (of_char c :: nat) < 128) s"

definition toLowerByte :: "char \<Rightarrow> char" where
  "toLowerByte c =
     (if (of_char (CHR ''A'') :: nat) \<le> of_char c \<and> (of_char c :: nat) \<le> of_char (CHR ''Z'')
      then char_of ((of_char c :: nat) + 32) else c)"

subsection \<open>Package strconv\<close>

text \<open>
  \<^verbatim>\<open>strconv.ParseUint(s, 10, 64)\<close>: the digits are consumed left to right; a byte that is not a
  decimal digit is a syntax error, a value beyond \<open>2^64 - 1\<close> a range error, whichever the
  scan meets first. The empty string is a syntax error.
\<close>

definition isDigit :: "char \<Rightarrow> bool" where
  "isDigit c = ((of_char (CHR ''0'') :: nat) \<le> of_char c \<and> (of_char c :: nat) \<le> of_char (CHR ''9''))"

definition digitVal :: "char \<Rightarrow> nat" where
  "digitVal c = of_char c - of_char (CHR ''0'')"

text \<open>\<open>2^64 - 1\<close> and \<open>2^63\<close>, written out.\<close>

definition maxUint64 :: nat where
  "maxUint64 = 18446744073709551615"

definition cutoffInt64 :: nat where
  "cutoffInt64 = 9223372036854775808"

fun ParseUintLoop :: "nat \<Rightarrow> string \<Rightarrow> error + nat" where
  "ParseUintLoop n [] = Inr n"
| "ParseUintLoop n (c # cs) =
     (if isDigit c then
        (if n \<ge> maxUint64 div 10 + 1 then Inl NumError_ErrRange
         else if n * 10 + digitVal c > maxUint64 then Inl NumError_ErrRange
         else ParseUintLoop (n * 10 + digitVal c) cs)
      else Inl NumError_ErrSyntax)"

definition ParseUint :: "string \<Rightarrow> error + nat" where
  "ParseUint s = (if s = [] then Inl NumError_ErrSyntax else ParseUintLoop 0 s)"

text \<open>
  \<^verbatim>\<open>strconv.ParseInt(s, 10, bitSize)\<close> for \<open>bitSize\<close> 64 (and 0, which means \<^verbatim>\<open>int\<close>, 64 bits wide
  on the platforms modelled): an optional sign, then \<^verbatim>\<open>ParseUint\<close>; the result must lie in
  \<open>[-2^63, 2^63)\<close>. A syntax error of \<^verbatim>\<open>ParseUint\<close> is returned at once; after a range error
  \<^verbatim>\<open>ParseInt\<close> goes on with the value \<open>2^64 - 1\<close>, which its own range check rejects: either way
  the error of \<^verbatim>\<open>ParseUint\<close> is the error of \<^verbatim>\<open>ParseInt\<close>.
\<close>

definition ParseInt :: "string \<Rightarrow> error + int" where
  "ParseInt s =
     (if s = [] then Inl NumError_ErrSyntax
      else
        let neg = (hd s = CHR ''-'');
            s1 = (if hd s = CHR ''+'' \<or> hd s = CHR ''-'' then tl s else s)
        in case ParseUint s1 of
             Inl e \<Rightarrow> Inl e
           | Inr un \<Rightarrow>
               if neg then (if un > cutoffInt64 then Inl NumError_ErrRange else Inr (- int un))
               else (if un \<ge> cutoffInt64 then Inl NumError_ErrRange else Inr (int un)))"

text \<open>\<^verbatim>\<open>strconv.Atoi(s)\<close> is \<^verbatim>\<open>ParseInt(s, 10, 0)\<close> converted to \<^verbatim>\<open>int\<close> (its fast path for short
  strings computes the same value and the same error kind).\<close>

definition Atoi :: "string \<Rightarrow> error + int" where
  "Atoi s = ParseInt s"

subsection \<open>The library as a parameter\<close>

text \<open>
  The decoders of \<^verbatim>\<open>encoding/base32\<close>, \<^verbatim>\<open>encoding/hex\<close> and \<^verbatim>\<open>net/url\<close>, and Unicode's
  lower-case table, belong to the Go distribution, not to this package. The package's
  functions take them as the record \<open>golib\<close>; every result below holds for whatever these
  functions compute. \<^verbatim>\<open>url.URL\<close> is the record of its textual components.
\<close>

record URL =
  Scheme :: string
  Opaque :: string
  Host :: string
  Path :: string
  RawQuery :: string
  Fragment :: string

record golib =
  base32_DecodeString :: "string \<Rightarrow> error + byte list"
  hex_DecodeString :: "string \<Rightarrow> error + byte list"
  url_Parse :: "string \<Rightarrow> error + URL"
  url_QueryUnescape :: "string \<Rightarrow> error + string"
  unicode_ToLower :: "string \<Rightarrow> string"

definition ToLower :: "golib \<Rightarrow> string \<Rightarrow> string" where
  "ToLower L s = (if isASCII s then map toLowerByte s else unicode_ToLower L s)"

section \<open>Package magnet: types and tables\<close>

datatype HashType =
    HashTTH
  | HashSHA1
  | HashBitPrint
  | HashED2K
  | HashAICH
  | HashKazaa
  | HashBTIH
  | HashMD5

text \<open>The entries of \<^verbatim>\<open>HashTypeMap\<close>, in the order of the source text.\<close>

definition HashTypeTable :: "(string \<times> HashType) list" where
  "HashTypeTable =
     [(''tree:tiger'', HashTTH),
      (''sha1'', HashSHA1),
      (''bitprint'', HashBitPrint),
      (''ed2k'', HashED2K),
      (''aich'', HashAICH),
      (''kzhash'', HashKazaa),
      (''btih'', HashBTIH),
      (''md5'', HashMD5)]"

text \<open>\<^verbatim>\<open>HashTypeMap[d]\<close>: the value stored under \<open>d\<close>, the zero value \<open>HashTTH\<close> for a key the
  map does not hold.\<close>

definition HashTypeMap :: "string \<Rightarrow> HashType" where
  "HashTypeMap d = (case map_of HashTypeTable d of None \<Rightarrow> HashTTH | Some t \<Rightarrow> t)"

definition HashTypeKeys :: "string list" where
  "HashTypeKeys = map fst HashTypeTable"

text \<open>
  \<^verbatim>\<open>for d := range HashTypeMap\<close> visits every key of the map once, in an order the language
  leaves unspecified and the runtime varies from one loop to the next. The order of one
  execution of the loop is a list \<open>ds\<close> with \<open>range_order ds\<close>, a parameter of \<open>newURN\<close> and
  of everything that calls it.
\<close>

definition range_order :: "string list \<Rightarrow> bool" where
  "range_order ds = (distinct ds \<and> set ds = set HashTypeKeys)"

datatype KeyType =
    KeyAcceptableSource
  | KeyDisplayName
  | KeyKeywordTopic
  | KeyManifestTopic
  | KeyTrackerAddress
  | KeyExactLength
  | KeyExactSource
  | KeyExactTopic
  | KeySuplement

definition KeyTypeMap :: "string \<rightharpoonup> KeyType" where
  "KeyTypeMap =
     map_of
       [(''as'', KeyAcceptableSource),
        (''dn'', KeyDisplayName),
        (''kt'', KeyKeywordTopic),
        (''mt'', KeyManifestTopic),
        (''tr'', KeyTrackerAddress),
        (''xl'', KeyExactLength),
        (''xs'', KeyExactSource),
        (''xt'', KeyExactTopic),
        (''x.'', KeySuplement)]"

text \<open>The field \<^verbatim>\<open>Type\<close> of \<^verbatim>\<open>Hash\<close> and of \<^verbatim>\<open>magnetKey\<close> is \<open>Hash_Type\<close> and \<open>Key_Type\<close> (the fields of
  all records share one name space), and \<^verbatim>\<open>Data\<close> is \<open>Hash_Data\<close>.\<close>

record Hash =
  Hash_Type :: HashType
  Hash_Data :: "byte list"

record URN =
  Hashes :: "Hash list"

record Suplement =
  Key :: string
  Val :: string

text \<open>\<^verbatim>\<open>ManifestTopics []interface{}\<close> holds \<^verbatim>\<open>*URN\<close> and \<^verbatim>\<open>string\<close> values.\<close>

datatype ManifestTopic = TopicURN URN | TopicString string

text \<open>\<^verbatim>\<open>Suplements map[string][]Suplement\<close>: \<open>None\<close> is the nil map, which reads as empty and
  panics when assigned to. \<^verbatim>\<open>ExactLength int64\<close> is an \<open>int\<close>: the only values stored in it are
  zero and results of \<^verbatim>\<open>strconv.ParseInt\<close>, which lie in \<open>[-2^63, 2^63)\<close>.\<close>

record Magnet =
  AcceptableSources :: "URL list"
  DisplayNames :: "string list"
  KeywordTopics :: "string list"
  ManifestTopics :: "ManifestTopic list"
  TrackerAddresses :: "string list"
  ExactLength :: int
  ExactSources :: "string list"
  ExactTopics :: "URN list"
  Suplements :: "(string \<rightharpoonup> Suplement list) option"

record magnetKey =
  Key_Type :: KeyType
  Indx :: int
  Supl :: string

section \<open>Package magnet: functions\<close>

subsection \<open>newURN\<close>

text \<open>
  The loop of \<^verbatim>\<open>newURN\<close> over the scheme tags, in the order \<open>ds\<close>:
  \<^verbatim>\<open>
  ht := HashType(-1)
  hd := ""
  for d := range HashTypeMap {
      if strings.HasPrefix(strings.ToLower(urn), d) {
          ht = HashTypeMap[d]
          hd = urn[len(d)+1:]
          break
      }
  }
  \<close>
  It yields \<open>(ht, hd)\<close>, with \<open>None\<close> for \<^verbatim>\<open>HashType(-1)\<close>. The slice expression
  \<^verbatim>\<open>urn[len(d)+1:]\<close> panics when \<^verbatim>\<open>len(d)+1 > len(urn)\<close>.
\<close>

fun newURN_range :: "golib \<Rightarrow> string \<Rightarrow> string list \<Rightarrow> abort + (HashType option \<times> string)" where
  "newURN_range L urn [] = Inr (None, [])"
| "newURN_range L urn (d # ds) =
     (if HasPrefix (ToLower L urn) d then
        (if length d + 1 > length urn then Inl (Panic SliceBoundsOutOfRange)
         else Inr (Some (HashTypeMap d), drop (length d + 1) urn))
      else newURN_range L urn ds)"

text \<open>
  The body of \<^verbatim>\<open>newURN\<close>. The \<^verbatim>\<open>switch ht\<close> has the cases
  \<^verbatim>\<open>HashTTH, HashSHA1, HashAICH\<close> (base 32), \<^verbatim>\<open>HashED2K, HashKazaa, HashBTIH\<close> (hexadecimal) and
  \<^verbatim>\<open>HashBitPrint\<close>, and no default: with any other \<open>ht\<close> it falls through to \<^verbatim>\<open>return r, nil\<close>.
\<close>

definition newURN :: "golib \<Rightarrow> string list \<Rightarrow> string \<Rightarrow> abort + URN" where
  "newURN L ds v =
     (let r = \<lparr>Hashes = []\<rparr>;
          a = Split v ''urn:''
      in if length a = 2 then
           (let urn = a ! 1 in
            case newURN_range L urn ds of
              Inl p \<Rightarrow> Inl p
            | Inr (ht, hd') \<Rightarrow>
                if ht = Some HashTTH \<or> ht = Some HashSHA1 \<or> ht = Some HashAICH then
                  (case base32_DecodeString L hd' of
                     Inl err \<Rightarrow> Inl (Err err)
                   | Inr data \<Rightarrow>
                       Inr (r\<lparr>Hashes := Hashes r @ [\<lparr>Hash_Type = the ht, Hash_Data = data\<rparr>]\<rparr>))
                else if ht = Some HashED2K \<or> ht = Some HashKazaa \<or> ht = Some HashBTIH then
                  (case hex_DecodeString L hd' of
                     Inl err \<Rightarrow> Inl (Err err)
                   | Inr data \<Rightarrow>
                       Inr (r\<lparr>Hashes := Hashes r @ [\<lparr>Hash_Type = the ht, Hash_Data = data\<rparr>]\<rparr>))
                else if ht = Some HashBitPrint then
                  (let b = Split hd' ''.'' in
                   if length b = 2 then
                     (case base32_DecodeString L (b ! 0) of
                        Inl err \<Rightarrow> Inl (Err err)
                      | Inr data \<Rightarrow>
                          (let r1 = r\<lparr>Hashes := Hashes r @ [\<lparr>Hash_Type = HashSHA1, Hash_Data = data\<rparr>]\<rparr>
                           in case base32_DecodeString L (b ! 1) of
                                Inl err \<Rightarrow> Inl (Err err)
                              | Inr data1 \<Rightarrow>
                                  Inr (r1\<lparr>Hashes := Hashes r1 @ [\<lparr>Hash_Type = HashTTH, Hash_Data = data1\<rparr>]\<rparr>)))
                   else Inl (Err ErrInvalidMagnet))
                else Inr r)
         else Inl (Err ErrInvalidMagnet))"

subsection \<open>newMagnetKey\<close>

text \<open>\<^verbatim>\<open>r := magnetKey{}\<close> is the record of zero values; \<^verbatim>\<open>k[0:2]\<close> is \<open>take 2 k\<close>, guarded by the
  test of the length before it. A failure of \<^verbatim>\<open>strconv.Atoi\<close> is replaced by
  \<^verbatim>\<open>ErrInvalidMagnet\<close>.\<close>

definition newMagnetKey :: "string \<Rightarrow> abort + magnetKey" where
  "newMagnetKey k =
     (let r = \<lparr>Key_Type = KeyAcceptableSource, Indx = 0, Supl = []\<rparr> in
      if length k < 2 then Inl (Err ErrInvalidMagnet)
      else
        case KeyTypeMap (take 2 k) of
          None \<Rightarrow> Inl (Err ErrInvalidMagnet)
        | Some t \<Rightarrow>
            (let r = r\<lparr>Key_Type := t\<rparr>;
                 b = SplitAfterN k ''.'' 1
             in if Key_Type r = KeySuplement \<and> length b < 2 then Inl (Err ErrInvalidMagnet)
                else
                  (let r = (if Key_Type r = KeySuplement then r\<lparr>Supl := b ! 1\<rparr> else r);
                       c = Split k ''.''
                   in if length c > 2 then Inl (Err ErrInvalidMagnet)
                      else if length c = 2 then
                        (case Atoi (c ! 1) of
                           Inl err \<Rightarrow> Inl (Err ErrInvalidMagnet)
                         | Inr v \<Rightarrow> Inr (r\<lparr>Indx := v\<rparr>))
                      else Inr r)))"

subsection \<open>parseKeyVal\<close>

text \<open>The method mutates its receiver; the model returns the updated record.\<close>

definition parseKeyVal :: "golib \<Rightarrow> string list \<Rightarrow> Magnet \<Rightarrow> string \<Rightarrow> string \<Rightarrow> abort + Magnet" where
  "parseKeyVal L ds m k v =
     (case newMagnetKey k of
        Inl err \<Rightarrow> Inl err
      | Inr mk \<Rightarrow>
          (case Key_Type mk of
             KeyAcceptableSource \<Rightarrow>
               (case url_Parse L v of
                  Inl err \<Rightarrow> Inl (Err err)
                | Inr u \<Rightarrow> Inr (m\<lparr>AcceptableSources := AcceptableSources m @ [u]\<rparr>))
           | KeyDisplayName \<Rightarrow>
               (case url_QueryUnescape L v of
                  Inl err \<Rightarrow> Inl (Err err)
                | Inr u \<Rightarrow> Inr (m\<lparr>DisplayNames := DisplayNames m @ [u]\<rparr>))
           | KeyKeywordTopic \<Rightarrow>
               (case url_QueryUnescape L v of
                  Inl err \<Rightarrow> Inl (Err err)
                | Inr u \<Rightarrow> Inr (m\<lparr>KeywordTopics := KeywordTopics m @ [u]\<rparr>))
           | KeyManifestTopic \<Rightarrow>
               (if HasPrefix (ToLower L v) ''urn'' then
                  (case newURN L ds v of
                     Inl err \<Rightarrow> Inl err
                   | Inr u \<Rightarrow> Inr (m\<lparr>ManifestTopics := ManifestTopics m @ [TopicURN u]\<rparr>))
                else
                  (case url_QueryUnescape L v of
                     Inl err \<Rightarrow> Inl (Err err)
                   | Inr u \<Rightarrow> Inr (m\<lparr>ManifestTopics := ManifestTopics m @ [TopicString u]\<rparr>)))
           | KeyTrackerAddress \<Rightarrow>
               (case url_QueryUnescape L v of
                  Inl err \<Rightarrow> Inl (Err err)
                | Inr u \<Rightarrow> Inr (m\<lparr>TrackerAddresses := TrackerAddresses m @ [u]\<rparr>))
           | KeyExactLength \<Rightarrow>
               (case ParseInt v of
                  Inl err \<Rightarrow> Inl (Err err)
                | Inr u \<Rightarrow> Inr (m\<lparr>ExactLength := u\<rparr>))
           | KeyExactSource \<Rightarrow> Inr (m\<lparr>ExactSources := ExactSources m @ [v]\<rparr>)
           | KeyExactTopic \<Rightarrow>
               (case newURN L ds v of
                  Inl err \<Rightarrow> Inl err
                | Inr u \<Rightarrow> Inr (m\<lparr>ManifestTopics := ManifestTopics m @ [TopicURN u]\<rparr>))
           | KeySuplement \<Rightarrow>
               (case Suplements m of
                  None \<Rightarrow> Inl (Panic NilMapAssignment)
                | Some sm \<Rightarrow>
                    Inr (m\<lparr>Suplements :=
                      Some (sm(take 2 k \<mapsto>
                        (case sm (take 2 k) of None \<Rightarrow> [] | Some l \<Rightarrow> l)
                          @ [\<lparr>Key = Supl mk, Val = v\<rparr>]))\<rparr>))))"

subsection \<open>parseMagnet and NewMagnet\<close>

text \<open>
  The loop of \<^verbatim>\<open>parseMagnet\<close> over the tokens:
  \<^verbatim>\<open>
  for _, v := range a {
      b := strings.Split(v, "=")
      if len(b) < 1 { goto error }
      if err := m.parseKeyVal(b[0], b[1]); err != nil { return err }
  }
  return nil
  \<close>
  The index expression \<^verbatim>\<open>b[1]\<close> panics when \<^verbatim>\<open>len(b) < 2\<close>.
\<close>

fun parseMagnet_range :: "golib \<Rightarrow> string list \<Rightarrow> Magnet \<Rightarrow> string list \<Rightarrow> abort + Magnet" where
  "parseMagnet_range L ds m [] = Inr m"
| "parseMagnet_range L ds m (v # vs) =
     (let b = Split v ''='' in
      if length b < 1 then Inl (Err ErrInvalidMagnet)
      else if length b < 2 then Inl (Panic IndexOutOfRange)
      else
        case parseKeyVal L ds m (b ! 0) (b ! 1) of
          Inl err \<Rightarrow> Inl err
        | Inr m' \<Rightarrow> parseMagnet_range L ds m' vs)"

definition parseMagnet :: "golib \<Rightarrow> string list \<Rightarrow> Magnet \<Rightarrow> string \<Rightarrow> abort + Magnet" where
  "parseMagnet L ds m s =
     (let a = Split s '':?'' in
      if length a = 2 then
        (if ToLower L (a ! 0) = ''magnet'' then
           (let a = Split (a ! 1) ''&'' in
            if length a = 0 then Inl (Err ErrInvalidMagnet)
            else parseMagnet_range L ds m a)
         else Inl (Err ErrInvalidMagnet))
      else Inl (Err ErrInvalidMagnet))"

text \<open>\<^verbatim>\<open>&Magnet{}\<close>: every field has its zero value; the map is nil.\<close>

definition Magnet_zero :: Magnet where
  "Magnet_zero =
     \<lparr>AcceptableSources = [], DisplayNames = [], KeywordTopics = [], ManifestTopics = [],
      TrackerAddresses = [], ExactLength = 0, ExactSources = [], ExactTopics = [],
      Suplements = None\<rparr>"

definition NewMagnet :: "golib \<Rightarrow> string list \<Rightarrow> string \<Rightarrow> abort + Magnet" where
  "NewMagnet L ds s = parseMagnet L ds Magnet_zero s"

section \<open>An instance of the library, for evaluation\<close>

text \<open>
  To run the package's functions on concrete inputs the library record needs a value.
  \<open>reflib\<close> supplies decoders written from the formats' definitions: base 32 with the
  standard alphabet and mandatory padding (RFC 4648), hexadecimal as \<^verbatim>\<open>hex.Decode\<close> scans it,
  and query unescaping (\<open>%XX\<close> and \<open>+\<close>). \<^verbatim>\<open>url.Parse\<close> and Unicode's lower-case table are not
  reproduced: the instance rejects every URL and leaves non-ASCII text as it is, and no
  evaluation below reaches either. Nothing proved for every library depends on \<open>reflib\<close>.
\<close>

definition encodeStd :: string where
  "encodeStd = ''ABCDEFGHIJKLMNOPQRSTUVWXYZ234567''"

fun IndexByte :: "string \<Rightarrow> char \<Rightarrow> nat option" where
  "IndexByte [] c = None"
| "IndexByte (x # xs) c = (if x = c then Some 0 else map_option Suc (IndexByte xs c))"

fun decodeValues :: "string \<Rightarrow> nat list option" where
  "decodeValues [] = Some []"
| "decodeValues (c # cs) =
     (case IndexByte encodeStd c of
        None \<Rightarrow> None
      | Some x \<Rightarrow> (case decodeValues cs of None \<Rightarrow> None | Some xs \<Rightarrow> Some (x # xs)))"

text \<open>One quantum of eight characters: \<open>j\<close> data characters, then padding to the end; it
  carries \<open>j * 5 div 8\<close> bytes, the leading bytes of the 40-bit value.\<close>

definition decodeQuantum :: "nat \<Rightarrow> string \<Rightarrow> error + byte list" where
  "decodeQuantum off q =
     (let dat = takeWhile (\<lambda>c. c \<noteq> CHR ''='') q;
          pad = dropWhile (\<lambda>c. c \<noteq> CHR ''='') q;
          j = length dat
      in if length q = 8 \<and> list_all (\<lambda>c. c = CHR ''='') pad \<and> j \<in> {2, 4, 5, 7, 8} then
           (case decodeValues dat of
              None \<Rightarrow> Inl (CorruptInputError off)
            | Some xs \<Rightarrow>
                (let n = foldl (\<lambda>a x. a * 32 + x) 0 (xs @ replicate (8 - j) 0)
                 in Inr (take (j * 5 div 8)
                      (map (\<lambda>i. word_of_nat (n div 256 ^ (4 - i) mod 256)) [0, 1, 2, 3, 4]))))
         else Inl (CorruptInputError off))"

fun base32_decode :: "nat \<Rightarrow> string \<Rightarrow> error + byte list" where
  "base32_decode off [] = Inr []"
| "base32_decode off (c0 # c1 # c2 # c3 # c4 # c5 # c6 # c7 # rest) =
     (case decodeQuantum off [c0, c1, c2, c3, c4, c5, c6, c7] of
        Inl e \<Rightarrow> Inl e
      | Inr bs \<Rightarrow>
          if c7 = CHR ''='' then (if rest = [] then Inr bs else Inl (CorruptInputError (off + 8)))
          else (case base32_decode (off + 8) rest of Inl e \<Rightarrow> Inl e | Inr bs' \<Rightarrow> Inr (bs @ bs')))"
| "base32_decode off cs = Inl (CorruptInputError off)"

fun fromHexChar :: "char \<Rightarrow> nat option" where
  "fromHexChar c =
     (let n = (of_char c :: nat) in
      if 48 \<le> n \<and> n \<le> 57 then Some (n - 48)
      else if 97 \<le> n \<and> n \<le> 102 then Some (n - 97 + 10)
      else if 65 \<le> n \<and> n \<le> 70 then Some (n - 65 + 10)
      else None)"

fun hex_decode :: "string \<Rightarrow> error + byte list" where
  "hex_decode [] = Inr []"
| "hex_decode [p] = (case fromHexChar p of None \<Rightarrow> Inl (InvalidByteError p) | Some a \<Rightarrow> Inl ErrLength)"
| "hex_decode (p # q # cs) =
     (case fromHexChar p of
        None \<Rightarrow> Inl (InvalidByteError p)
      | Some a \<Rightarrow>
          (case fromHexChar q of
             None \<Rightarrow> Inl (InvalidByteError q)
           | Some b \<Rightarrow>
               (case hex_decode cs of
                  Inl e \<Rightarrow> Inl e
                | Inr bs \<Rightarrow> Inr (word_of_nat (a * 16 + b) # bs))))"

fun unescape :: "string \<Rightarrow> error + string" where
  "unescape [] = Inr []"
| "unescape (c # cs) =
     (if c = CHR ''%'' then
        (case cs of
           a # b # rest \<Rightarrow>
             (case fromHexChar a of
                None \<Rightarrow> Inl (EscapeError (take 3 (c # cs)))
              | Some x \<Rightarrow>
                  (case fromHexChar b of
                     None \<Rightarrow> Inl (EscapeError (take 3 (c # cs)))
                   | Some y \<Rightarrow>
                       (case unescape rest of
                          Inl e \<Rightarrow> Inl e
                        | Inr t \<Rightarrow> Inr (char_of (x * 16 + y) # t))))
         | _ \<Rightarrow> Inl (EscapeError (take 3 (c # cs))))
      else
        (case unescape cs of
           Inl e \<Rightarrow> Inl e
         | Inr t \<Rightarrow> Inr ((if c = CHR ''+'' then CHR '' '' else c) # t)))"

definition reflib :: golib where
  "reflib =
     \<lparr>base32_DecodeString = base32_decode 0,
      hex_DecodeString = hex_decode,
      url_Parse = (\<lambda>s. Inl (URLError s)),
      url_QueryUnescape = unescape,
      unicode_ToLower = (\<lambda>s. s)\<rparr>"

section \<open>The vocabulary of the specification\<close>

text \<open>
  The specification speaks of the tokens of a magnet string, of a numeric value and of the
  base-10 value of a token. These definitions follow its words, not the code; the claims
  compare the code with them.

  A value is numeric when it is a non-empty run of decimal digits after an optional sign;
  its base-10 value is read off the digits, most significant first.
\<close>

definition spec_numeric :: "string \<Rightarrow> bool" where
  "spec_numeric s =
     (let t = (if s \<noteq> [] \<and> (hd s = CHR ''+'' \<or> hd s = CHR ''-'') then tl s else s)
      in t \<noteq> [] \<and> list_all isDigit t)"

definition spec_digits :: "string \<Rightarrow> nat" where
  "spec_digits t = foldl (\<lambda>n c. n * 10 + digitVal c) 0 t"

definition spec_value :: "string \<Rightarrow> int" where
  "spec_value s =
     (if s \<noteq> [] \<and> hd s = CHR ''-'' then - int (spec_digits (tl s))
      else if s \<noteq> [] \<and> hd s = CHR ''+'' then int (spec_digits (tl s))
      else int (spec_digits s))"

text \<open>The errors of \<^verbatim>\<open>strconv\<close> are the specification's \<open>InvalidInteger\<close>.\<close>

definition InvalidInteger :: "error \<Rightarrow> bool" where
  "InvalidInteger e = (e = NumError_ErrSyntax \<or> e = NumError_ErrRange)"

text \<open>
  The tokens of a magnet string: the query after \<open>:?\<close>, split on \<open>&\<close>. By the grammar
  \<open>token := key "=" value\<close> the key of a token is its text before the first \<open>=\<close> and its value
  is all of its text after the first \<open>=\<close>. An \<open>xl\<close> token is one whose key has the prefix
  \<open>xl\<close> of the key table. The exact length a list of tokens announces is the value of its
  last \<open>xl\<close> token, zero when it has none. A 64-bit integer lies in \<open>[-2^63, 2^63)\<close>.
\<close>

definition spec_key :: "string \<Rightarrow> string" where
  "spec_key t = takeWhile (\<lambda>c. c \<noteq> CHR ''='') t"

definition spec_val :: "string \<Rightarrow> string" where
  "spec_val t = drop 1 (dropWhile (\<lambda>c. c \<noteq> CHR ''='') t)"

definition spec_tokens :: "string \<Rightarrow> (string \<times> string) list" where
  "spec_tokens s = map (\<lambda>t. (spec_key t, spec_val t)) (Split (Split s '':?'' ! 1) ''&'')"

definition spec_ExactLength :: "(string \<times> string) list \<Rightarrow> int" where
  "spec_ExactLength ts =
     (let xl = filter (\<lambda>kv. take 2 (fst kv) = ''xl'') ts
      in if xl = [] then 0 else spec_value (snd (last xl)))"

definition in_int64 :: "int \<Rightarrow> bool" where
  "in_int64 i = (- int cutoffInt64 \<le> i \<and> i < int cutoffInt64)"

text \<open>The code reads less of a value than the grammar gives it: the part that ends before
  the value's first \<open>=\<close>, the whole value when it has none.\<close>

definition value_read :: "string \<Rightarrow> string" where
  "value_read v = takeWhile (\<lambda>c. c \<noteq> CHR ''='') v"

section \<open>Facts about the library functions\<close>

subsection \<open>Index, Count and Split\<close>

lemma HasPrefix_Nil [simp]: "HasPrefix s []"
  by (simp add: HasPrefix_def)

lemma Index_Nil_sep: "Index s [] = Some 0"
  by (cases s) simp_all

lemma Index_Some_bound: "Index s sep = Some i \<Longrightarrow> i + length sep \<le> length s"
proof (induction s arbitrary: i)
  case Nil
  then show ?case by (simp split: if_splits)
next
  case (Cons c cs)
  then show ?case by (auto simp: HasPrefix_def split: if_splits)
qed

lemma Index_Some_HasPrefix: "Index s sep = Some i \<Longrightarrow> HasPrefix (drop i s) sep"
proof (induction s arbitrary: i)
  case Nil
  then show ?case by (simp split: if_splits)
next
  case (Cons c cs)
  then show ?case by (auto split: if_splits)
qed

lemma HasPrefix_append: "HasPrefix s pre \<Longrightarrow> s = pre @ drop (length pre) s"
  by (metis HasPrefix_def append_take_drop_id)

lemma Index_Some_decomp:
  assumes "Index s sep = Some i"
  shows "s = take i s @ sep @ drop (i + length sep) s"
proof -
  have "drop i s = sep @ drop (length sep) (drop i s)"
    using Index_Some_HasPrefix [OF assms] by (rule HasPrefix_append)
  then have "drop i s = sep @ drop (i + length sep) s"
    by (simp add: add.commute)
  then show ?thesis
    by (metis append_take_drop_id)
qed

lemma CountLoop_le: "CountLoop k s sep \<le> k"
  by (induction k arbitrary: s) (auto split: option.splits)

lemma CountLoop_fuel:
  "sep \<noteq> [] \<Longrightarrow> length s \<le> k \<Longrightarrow> CountLoop k s sep = CountLoop (length s) s sep"
proof (induction "length s" arbitrary: s k rule: less_induct)
  case less
  show ?case
  proof (cases "Index s sep")
    case None
    then show ?thesis by (cases k; cases "length s") simp_all
  next
    case (Some i)
    let ?r = "drop (i + length sep) s"
    from Index_Some_bound [OF Some] less.prems have lt: "length ?r < length s"
      by (cases sep) auto
    then obtain n where n: "length s = Suc n" by (cases "length s") auto
    with less.prems obtain k' where k': "k = Suc k'" by (cases k) auto
    have le: "length ?r \<le> k'" "length ?r \<le> n"
      using lt n k' less.prems(2) by simp_all
    have "CountLoop k' ?r sep = CountLoop (length ?r) ?r sep"
      by (rule less.hyps [OF lt less.prems(1) le(1)])
    moreover have "CountLoop n ?r sep = CountLoop (length ?r) ?r sep"
      by (rule less.hyps [OF lt less.prems(1) le(2)])
    ultimately have "CountLoop k' ?r sep = CountLoop n ?r sep" by simp
    then show ?thesis using Some n k' by simp
  qed
qed

lemma Count_None: "Index s sep = None \<Longrightarrow> Count s sep = 0"
  by (cases "length s") (simp_all add: Count_def)

lemma Count_Some:
  assumes "sep \<noteq> []" "Index s sep = Some i"
  shows "Count s sep = Suc (Count (drop (i + length sep) s) sep)"
proof -
  let ?r = "drop (i + length sep) s"
  from Index_Some_bound [OF assms(2)] assms(1) have lt: "length ?r < length s"
    by (cases sep) auto
  then obtain n where n: "length s = Suc n" by (cases "length s") auto
  have "length ?r \<le> n" using lt n by simp
  then have "CountLoop n ?r sep = CountLoop (length ?r) ?r sep"
    by (rule CountLoop_fuel [OF assms(1)])
  then show ?thesis using assms(2) n by (simp add: Count_def)
qed

lemma Count_le_length: "Count s sep \<le> length s"
  by (simp add: Count_def CountLoop_le)

lemma Split_genSplitLoop: "Split s sep = genSplitLoop (Count s sep) s sep 0"
  using Count_le_length [of s sep] by (simp add: Split_def genSplit_def Let_def)

lemma Split_None: "Index s sep = None \<Longrightarrow> Split s sep = [s]"
  by (simp add: Split_genSplitLoop Count_None)

lemma Split_Some:
  "sep \<noteq> [] \<Longrightarrow> Index s sep = Some i \<Longrightarrow>
     Split s sep = take i s # Split (drop (i + length sep) s) sep"
  by (simp add: Split_genSplitLoop Count_Some)

lemma Split_not_Nil: "Split s sep \<noteq> []"
  by (cases "Count s sep") (simp_all add: Split_genSplitLoop split: option.splits)

lemma length_Split:
  "sep \<noteq> [] \<Longrightarrow> length (Split s sep) = Suc (Count s sep)"
proof (induction "length s" arbitrary: s rule: less_induct)
  case less
  show ?case
  proof (cases "Index s sep")
    case None
    then show ?thesis by (simp add: Split_None Count_None)
  next
    case (Some i)
    let ?r = "drop (i + length sep) s"
    from Index_Some_bound [OF Some] less.prems have lt: "length ?r < length s"
      by (cases sep) auto
    show ?thesis
      using less.hyps [OF lt less.prems] less.prems Some
      by (simp add: Split_Some Count_Some)
  qed
qed

lemma SplitAfterN_1: "SplitAfterN k sep 1 = [k]"
  by (simp add: SplitAfterN_def genSplit_def Let_def)

lemma Index_single_None: "c \<notin> set s \<Longrightarrow> Index s [c] = None"
  by (induction s) (auto simp: HasPrefix_def)

lemma Index_single_Some: "c \<notin> set s1 \<Longrightarrow> Index (s1 @ c # s2) [c] = Some (length s1)"
  by (induction s1) (auto simp: HasPrefix_def)

lemma Index_HasPrefix_0: "sep \<noteq> [] \<Longrightarrow> HasPrefix s sep \<Longrightarrow> Index s sep = Some 0"
  by (cases s) (auto simp: HasPrefix_def)

lemma Split_single_None: "c \<notin> set s \<Longrightarrow> Split s [c] = [s]"
  by (simp add: Split_None Index_single_None)

lemma Split_single_Some:
  "c \<notin> set s1 \<Longrightarrow> Split (s1 @ c # s2) [c] = s1 # Split s2 [c]"
  by (simp add: Split_Some [OF _ Index_single_Some])

lemma Split_drop_Index:
  assumes "sep \<noteq> []" "Index s sep = Some i"
  shows "Split (drop i s) sep = [] # Split (drop (i + length sep) s) sep"
proof -
  have "Index (drop i s) sep = Some 0"
    using assms Index_Some_HasPrefix Index_HasPrefix_0 by blast
  from Split_Some [OF assms(1) this] show ?thesis
    by (simp add: add.commute)
qed

subsection \<open>The scheme tags and the order of the range loop\<close>

text \<open>No string has two of the scheme tags as prefixes, so the loop of \<open>newURN\<close> finds the same
  tag in whatever order it visits the keys.\<close>

lemma HasPrefix_both:
  assumes "HasPrefix u d1" "HasPrefix u d2" "length d1 \<le> length d2"
  shows "take (length d1) d2 = d1"
proof -
  have "take (length d1) d2 = take (length d1) (take (length d2) u)"
    using assms(2) by (simp add: HasPrefix_def)
  also have "\<dots> = take (length d1) u"
    using assms(3) by (simp add: min_def)
  finally show ?thesis using assms(1) by (simp add: HasPrefix_def)
qed

lemma tags_prefix_free:
  "list_all (\<lambda>d1. list_all (\<lambda>d2. d1 = d2 \<or> take (length d1) d2 \<noteq> d1) HashTypeKeys) HashTypeKeys"
  by code_simp

lemma tag_unique:
  assumes "d1 \<in> set HashTypeKeys" "d2 \<in> set HashTypeKeys" "HasPrefix u d1" "HasPrefix u d2"
  shows "d1 = d2"
proof -
  have pf: "\<And>a b. a \<in> set HashTypeKeys \<Longrightarrow> b \<in> set HashTypeKeys \<Longrightarrow> take (length a) b = a \<Longrightarrow> a = b"
    using tags_prefix_free unfolding list_all_iff by blast
  show ?thesis
  proof (cases "length d1 \<le> length d2")
    case True
    from HasPrefix_both [OF assms(3,4) True] pf assms(1,2) show ?thesis by blast
  next
    case False
    then have "length d2 \<le> length d1" by simp
    from HasPrefix_both [OF assms(4,3) this] pf assms(1,2) show ?thesis by metis
  qed
qed

lemma newURN_range_miss:
  "\<forall>d \<in> set ds. \<not> HasPrefix (ToLower L urn) d \<Longrightarrow> newURN_range L urn ds = Inr (None, [])"
  by (induction ds) auto

lemma newURN_range_hit:
  assumes "d \<in> set ds" "HasPrefix (ToLower L urn) d"
    and "\<forall>d' \<in> set ds. HasPrefix (ToLower L urn) d' \<longrightarrow> d' = d"
  shows "newURN_range L urn ds = newURN_range L urn [d]"
  using assms
proof (induction ds)
  case Nil
  then show ?case by simp
next
  case (Cons x xs)
  show ?case
  proof (cases "HasPrefix (ToLower L urn) x")
    case True
    with Cons.prems(3) have "x = d" by auto
    with True show ?thesis by simp
  next
    case False
    with Cons.prems(1,2) have 1: "d \<in> set xs" by auto
    from Cons.prems(3) have 2: "\<forall>d' \<in> set xs. HasPrefix (ToLower L urn) d' \<longrightarrow> d' = d"
      by auto
    have "newURN_range L urn xs = newURN_range L urn [d]"
      by (rule Cons.IH [OF 1 Cons.prems(2) 2])
    with False show ?thesis by simp
  qed
qed

lemma newURN_range_order:
  assumes "range_order ds"
  shows "newURN_range L urn ds = newURN_range L urn HashTypeKeys"
proof (cases "\<exists>d \<in> set HashTypeKeys. HasPrefix (ToLower L urn) d")
  case True
  then obtain d where d: "d \<in> set HashTypeKeys" "HasPrefix (ToLower L urn) d" by blast
  have u: "\<forall>d' \<in> set HashTypeKeys. HasPrefix (ToLower L urn) d' \<longrightarrow> d' = d"
    using tag_unique d by blast
  have s: "set ds = set HashTypeKeys" using assms by (simp add: range_order_def)
  have "newURN_range L urn HashTypeKeys = newURN_range L urn [d]"
    using d u by (rule newURN_range_hit)
  moreover have "newURN_range L urn ds = newURN_range L urn [d]"
    using d u unfolding s [symmetric] by (rule newURN_range_hit)
  ultimately show ?thesis by simp
next
  case False
  have s: "set ds = set HashTypeKeys" using assms by (simp add: range_order_def)
  from False s show ?thesis by (simp add: newURN_range_miss)
qed

lemma newURN_order:
  assumes "range_order ds"
  shows "newURN L ds v = newURN L HashTypeKeys v"
  unfolding newURN_def newURN_range_order [OF assms] ..

lemma parseKeyVal_order:
  assumes "range_order ds"
  shows "parseKeyVal L ds m k v = parseKeyVal L HashTypeKeys m k v"
  unfolding parseKeyVal_def newURN_order [OF assms] ..

lemma parseMagnet_range_order:
  assumes "range_order ds"
  shows "parseMagnet_range L ds m vs = parseMagnet_range L HashTypeKeys m vs"
proof (induction vs arbitrary: m)
  case Nil
  show ?case by simp
next
  case (Cons v vs)
  show ?case
    unfolding parseMagnet_range.simps parseKeyVal_order [OF assms] Cons.IH ..
qed

lemma NewMagnet_order:
  assumes "range_order ds"
  shows "NewMagnet L ds s = NewMagnet L HashTypeKeys s"
  unfolding NewMagnet_def parseMagnet_def parseMagnet_range_order [OF assms] ..

lemma range_order_HashTypeKeys: "range_order HashTypeKeys"
  by (simp add: range_order_def HashTypeKeys_def HashTypeTable_def)

lemma range_order_rev: "range_order ds \<Longrightarrow> range_order (rev ds)"
  by (simp add: range_order_def)

section \<open>Evaluating the package on concrete inputs\<close>

lemma ToLower_ascii: "isASCII s \<Longrightarrow> ToLower L s = map toLowerByte s"
  by (simp add: ToLower_def)

lemma ToLower_magnet: "ToLower L ''magnet'' = ''magnet''"
  by (rule trans [OF ToLower_ascii]) code_simp+

lemma newMagnetKey_xt: "newMagnetKey ''xt'' = Inr \<lparr>Key_Type = KeyExactTopic, Indx = 0, Supl = []\<rparr>"
  by code_simp

lemma NewMagnet_empty_query: "NewMagnet L ds ''magnet:?'' = Inl (Panic IndexOutOfRange)"
proof -
  have 1: "Split ''magnet:?'' '':?'' = [''magnet'', []]" by code_simp
  have 2: "Split [] ''&'' = [[]]" by code_simp
  have 3: "Split [] ''='' = [[]]" by code_simp
  show ?thesis
    by (simp add: NewMagnet_def parseMagnet_def 1 2 3 ToLower_magnet)
qed

lemma newURN_tag_only:
  assumes "range_order ds" "d \<in> set HashTypeKeys"
  shows "newURN L ds (''urn:'' @ d) = Inl (Panic SliceBoundsOutOfRange)"
proof -
  have a: "Split (''urn:'' @ d) ''urn:'' = [[], d]"
    using assms(2) unfolding HashTypeKeys_def HashTypeTable_def
    by (auto; code_simp)
  have low: "ToLower L d = d"
    using assms(2) unfolding HashTypeKeys_def HashTypeTable_def
    by (auto intro!: trans [OF ToLower_ascii]; code_simp)
  have "HasPrefix (ToLower L d) d" unfolding low by (simp add: HasPrefix_def)
  moreover have "\<forall>d' \<in> set HashTypeKeys. HasPrefix (ToLower L d) d' \<longrightarrow> d' = d"
    using tag_unique [OF _ assms(2)] calculation by blast
  ultimately have "newURN_range L d HashTypeKeys = newURN_range L d [d]"
    using assms(2) by (intro newURN_range_hit) 
  then have r: "newURN_range L d HashTypeKeys = Inl (Panic SliceBoundsOutOfRange)"
    using \<open>HasPrefix (ToLower L d) d\<close> by simp
  show ?thesis
    unfolding newURN_order [OF assms(1)] using a by (simp add: newURN_def r)
qed

section \<open>The claims\<close>

subsection \<open>C1: where an exact topic is stored\<close>

lemma parseKeyVal_ExactTopics:
  "parseKeyVal L ds m k v = Inr m' \<Longrightarrow> ExactTopics m' = ExactTopics m"
  by (auto simp: parseKeyVal_def split: sum.splits KeyType.splits if_splits option.splits)

lemma parseMagnet_range_ExactTopics:
  "parseMagnet_range L ds m vs = Inr m' \<Longrightarrow> ExactTopics m' = ExactTopics m"
proof (induction vs arbitrary: m)
  case Nil
  then show ?case by simp
next
  case (Cons v vs)
  then show ?case
    by (auto simp: Let_def split: if_splits sum.splits dest: parseKeyVal_ExactTopics)
qed

lemma NewMagnet_ExactTopics: "NewMagnet L ds s = Inr m \<Longrightarrow> ExactTopics m = []"
  by (auto simp: NewMagnet_def parseMagnet_def Let_def Magnet_zero_def
      split: if_splits dest: parseMagnet_range_ExactTopics)

lemma newURN_range_sha1_test:
  "newURN_range L ''sha1:YNCKHTQCWBTRNJIV4WNAE52SJUQCZO5C'' HashTypeKeys =
     Inr (Some HashSHA1, ''YNCKHTQCWBTRNJIV4WNAE52SJUQCZO5C'')"
proof -
  have low: "ToLower L ''sha1:YNCKHTQCWBTRNJIV4WNAE52SJUQCZO5C'' = ''sha1:ynckhtqcwbtrnjiv4wnae52sjuqczo5c''"
    by (rule trans [OF ToLower_ascii]) code_simp+
  show ?thesis
    by (simp add: HashTypeKeys_def HashTypeTable_def low HasPrefix_def HashTypeMap_def)
qed

lemma newURN_sha1_test:
  "newURN L HashTypeKeys ''urn:sha1:YNCKHTQCWBTRNJIV4WNAE52SJUQCZO5C'' =
     (case base32_DecodeString L ''YNCKHTQCWBTRNJIV4WNAE52SJUQCZO5C'' of
        Inl err \<Rightarrow> Inl (Err err)
      | Inr data \<Rightarrow> Inr \<lparr>Hashes = [\<lparr>Hash_Type = HashSHA1, Hash_Data = data\<rparr>]\<rparr>)"
proof -
  have a: "Split ''urn:sha1:YNCKHTQCWBTRNJIV4WNAE52SJUQCZO5C'' ''urn:'' =
      [[], ''sha1:YNCKHTQCWBTRNJIV4WNAE52SJUQCZO5C'']"
    by code_simp
  show ?thesis
    by (simp add: newURN_def a newURN_range_sha1_test split: sum.splits)
qed

lemma NewMagnet_sha1_test:
  "NewMagnet L HashTypeKeys ''magnet:?xt=urn:sha1:YNCKHTQCWBTRNJIV4WNAE52SJUQCZO5C'' =
     (case base32_DecodeString L ''YNCKHTQCWBTRNJIV4WNAE52SJUQCZO5C'' of
        Inl err \<Rightarrow> Inl (Err err)
      | Inr data \<Rightarrow>
          Inr (Magnet_zero\<lparr>ManifestTopics :=
            [TopicURN \<lparr>Hashes = [\<lparr>Hash_Type = HashSHA1, Hash_Data = data\<rparr>]\<rparr>]\<rparr>))"
proof -
  have 1: "Split ''magnet:?xt=urn:sha1:YNCKHTQCWBTRNJIV4WNAE52SJUQCZO5C'' '':?'' =
      [''magnet'', ''xt=urn:sha1:YNCKHTQCWBTRNJIV4WNAE52SJUQCZO5C'']"
    by code_simp
  have 2: "Split ''xt=urn:sha1:YNCKHTQCWBTRNJIV4WNAE52SJUQCZO5C'' ''&'' =
      [''xt=urn:sha1:YNCKHTQCWBTRNJIV4WNAE52SJUQCZO5C'']"
    by code_simp
  have 3: "Split ''xt=urn:sha1:YNCKHTQCWBTRNJIV4WNAE52SJUQCZO5C'' ''='' =
      [''xt'', ''urn:sha1:YNCKHTQCWBTRNJIV4WNAE52SJUQCZO5C'']"
    by code_simp
  show ?thesis
    by (simp add: NewMagnet_def parseMagnet_def 1 2 3 ToLower_magnet parseKeyVal_def
        newMagnetKey_xt newURN_sha1_test Magnet_zero_def split: sum.splits)
qed

lemma base32_decode_test:
  "base32_DecodeString reflib ''YNCKHTQCWBTRNJIV4WNAE52SJUQCZO5C'' =
     Inr [195, 68, 163, 206, 2, 176, 103, 22, 165, 21, 229, 154, 2, 119, 82, 77, 32, 44, 187, 162]"
  by code_simp

text \<open>
  C1. A magnet string with a single \<open>xt=urn:sha1:<base32>\<close> token should parse to a result
  whose exact-topics sequence holds the one Urn. In the code the \<^verbatim>\<open>KeyExactTopic\<close> case appends
  to \<^verbatim>\<open>ManifestTopics\<close>: no successful parse, of any input, leaves anything in the
  exact-topics sequence.
\<close>

theorem ExactTopics_stays_empty:
  assumes "NewMagnet L ds s = Inr m"
  shows "ExactTopics m = []"
  using assms by (rule NewMagnet_ExactTopics)

theorem ExactTopics_stays_empty_witness:
  "NewMagnet reflib HashTypeKeys ''magnet:?xt=urn:sha1:YNCKHTQCWBTRNJIV4WNAE52SJUQCZO5C'' =
     Inr (Magnet_zero\<lparr>ManifestTopics :=
       [TopicURN \<lparr>Hashes = [\<lparr>Hash_Type = HashSHA1, Hash_Data =
          [195, 68, 163, 206, 2, 176, 103, 22, 165, 21, 229, 154, 2, 119, 82, 77, 32, 44, 187, 162]\<rparr>]\<rparr>]\<rparr>)
   \<and> ExactTopics (Magnet_zero\<lparr>ManifestTopics :=
       [TopicURN \<lparr>Hashes = [\<lparr>Hash_Type = HashSHA1, Hash_Data =
          [195, 68, 163, 206, 2, 176, 103, 22, 165, 21, 229, 154, 2, 119, 82, 77, 32, 44, 187, 162]\<rparr>]\<rparr>]\<rparr>) = []"
proof -
  have e: "NewMagnet reflib HashTypeKeys ''magnet:?xt=urn:sha1:YNCKHTQCWBTRNJIV4WNAE52SJUQCZO5C'' =
     Inr (Magnet_zero\<lparr>ManifestTopics :=
       [TopicURN \<lparr>Hashes = [\<lparr>Hash_Type = HashSHA1, Hash_Data =
          [195, 68, 163, 206, 2, 176, 103, 22, 165, 21, 229, 154, 2, 119, 82, 77, 32, 44, 187, 162]\<rparr>]\<rparr>]\<rparr>)"
    by (simp add: NewMagnet_sha1_test base32_decode_test)
  from ExactTopics_stays_empty [OF e] e show ?thesis by simp
qed

subsection \<open>C2: supplement keys\<close>

lemma newMagnetKey_supplement: "newMagnetKey (''x.'' @ t) = Inl (Err ErrInvalidMagnet)"
  by (simp add: newMagnetKey_def KeyTypeMap_def SplitAfterN_1)

lemma NewMagnet_supplement_test: "NewMagnet L ds ''magnet:?x.foo=bar'' = Inl (Err ErrInvalidMagnet)"
proof -
  have 1: "Split ''magnet:?x.foo=bar'' '':?'' = [''magnet'', ''x.foo=bar'']" by code_simp
  have 2: "Split ''x.foo=bar'' ''&'' = [''x.foo=bar'']" by code_simp
  have 3: "Split ''x.foo=bar'' ''='' = [''x.foo'', ''bar'']" by code_simp
  have 4: "newMagnetKey ''x.foo'' = Inl (Err ErrInvalidMagnet)"
    using newMagnetKey_supplement [of "''foo''"] by simp
  show ?thesis
    by (simp add: NewMagnet_def parseMagnet_def 1 2 3 4 ToLower_magnet parseKeyVal_def)
qed

text \<open>
  C2. A key with the supplement prefix \<open>x.\<close> should classify, with the text after the dot as
  its supplement tag, and the pair of tag and value should be appended under \<open>x.\<close> in the
  supplement map. In the code \<^verbatim>\<open>strings.SplitAfterN(k, ".", 1)\<close> returns the key in one piece,
  so the test \<^verbatim>\<open>len(b) < 2\<close> rejects every supplement key: classification fails, nothing is
  appended, and a magnet string with such a token does not parse.
\<close>

theorem supplement_key_rejected:
  "newMagnetKey (''x.'' @ t) = Inl (Err ErrInvalidMagnet)
   \<and> parseKeyVal L ds m (''x.'' @ t) v = Inl (Err ErrInvalidMagnet)
   \<and> NewMagnet L ds ''magnet:?x.foo=bar'' = Inl (Err ErrInvalidMagnet)"
  using newMagnetKey_supplement [of t]
  by (simp add: parseKeyVal_def NewMagnet_supplement_test)

subsection \<open>C3: the md5 scheme\<close>

lemma isASCII_Cons: "isASCII (c # s) = ((of_char c :: nat) < 128 \<and> isASCII s)"
  by (simp add: isASCII_def)

lemma newURN_md5:
  assumes "range_order ds" "isASCII p" "Index p ''urn:'' = None"
  shows "newURN L ds (''urn:md5:'' @ p) = Inr \<lparr>Hashes = []\<rparr>"
proof -
  let ?urn = "''md5:'' @ p"
  have i: "Index ?urn ''urn:'' = None"
    using assms(3) by (simp add: HasPrefix_def)
  have "Index (''urn:md5:'' @ p) ''urn:'' = Some 0"
    by (simp add: HasPrefix_def)
  from Split_Some [OF _ this] have a: "Split (''urn:md5:'' @ p) ''urn:'' = [[], ?urn]"
    using Split_None [OF i] by simp
  have low: "ToLower L ?urn = ''md5:'' @ map toLowerByte p"
    using assms(2) by (simp add: ToLower_def isASCII_Cons toLowerByte_def)
  have r: "newURN_range L ?urn HashTypeKeys = Inr (Some HashMD5, p)"
    using low by (simp add: HashTypeKeys_def HashTypeTable_def HasPrefix_def HashTypeMap_def)
  show ?thesis
    unfolding newURN_order [OF assms(1)] using a r by (simp add: newURN_def)
qed

text \<open>
  C3. A URN \<open>urn:md5:<payload>\<close> should end in an explicit error, never in a success without
  a Hash. In the code the tag \<open>md5\<close> is in the table and \<^verbatim>\<open>HashMD5\<close> has no case in the switch:
  the parser returns a URN with no hashes and no error.
\<close>

theorem md5_urn_is_empty_success:
  assumes "range_order ds" "isASCII p" "Index p ''urn:'' = None"
  shows "newURN L ds (''urn:md5:'' @ p) = Inr \<lparr>Hashes = []\<rparr>"
  using assms by (rule newURN_md5)

theorem md5_urn_is_empty_success_witness:
  "range_order HashTypeKeys \<and> isASCII ''d41d8cd98f00b204e9800998ecf8427e''
   \<and> Index ''d41d8cd98f00b204e9800998ecf8427e'' ''urn:'' = None
   \<and> newURN reflib HashTypeKeys ''urn:md5:d41d8cd98f00b204e9800998ecf8427e'' = Inr \<lparr>Hashes = []\<rparr>"
proof -
  have 1: "isASCII ''d41d8cd98f00b204e9800998ecf8427e''" by code_simp
  have 2: "Index ''d41d8cd98f00b204e9800998ecf8427e'' ''urn:'' = None" by code_simp
  from md5_urn_is_empty_success [OF range_order_HashTypeKeys 1 2, of reflib] 1 2
  show ?thesis by (simp add: range_order_HashTypeKeys)
qed

subsection \<open>C4: a token without a separator\<close>

lemma parseMagnet_range_no_separator:
  assumes "CHR ''='' \<notin> set v"
  shows "parseMagnet_range L ds m (v # vs) = Inl (Panic IndexOutOfRange)"
  using Split_single_None [OF assms] by simp

text \<open>
  C4. An input whose query has no token, or a token without \<open>=\<close>, should be rejected with
  the error, and \<^verbatim>\<open>b[1]\<close> should be read only when the token has a \<open>=\<close>. In the code the guard
  is \<^verbatim>\<open>len(b) < 1\<close>, which no result of \<^verbatim>\<open>strings.Split\<close> satisfies (nor does any satisfy
  \<^verbatim>\<open>len(a) == 0\<close>), so \<^verbatim>\<open>b[1]\<close> is read on a one-element slice: \<open>magnet:?\<close> makes the parser
  panic.
\<close>

theorem empty_query_panics:
  "NewMagnet L ds ''magnet:?'' = Inl (Panic IndexOutOfRange)
   \<and> Split q ''&'' \<noteq> [] \<and> Split v ''='' \<noteq> []"
  by (simp add: NewMagnet_empty_query Split_not_Nil)

subsection \<open>C5: the split on \<open>urn:\<close>\<close>

lemma newURN_not_one_urn:
  assumes "Count v ''urn:'' \<noteq> 1"
  shows "newURN L ds v = Inl (Err ErrInvalidMagnet)"
proof -
  have "length (Split v ''urn:'') = Suc (Count v ''urn:'')"
    by (rule length_Split) simp
  with assms have "length (Split v ''urn:'') \<noteq> 2" by simp
  then show ?thesis by (simp add: newURN_def)
qed

lemma newURN_drop_before:
  assumes "Index v ''urn:'' = Some i"
  shows "newURN L ds v = newURN L ds (drop i v)"
proof -
  let ?rest = "Split (drop (i + length ''urn:'') v) ''urn:''"
  have 1: "Split v ''urn:'' = take i v # ?rest"
    using assms by (intro Split_Some) simp_all
  have 2: "Split (drop i v) ''urn:'' = [] # ?rest"
    using assms by (intro Split_drop_Index) simp_all
  have "length (Split v ''urn:'') = length (Split (drop i v) ''urn:'')"
    and "Split v ''urn:'' ! 1 = Split (drop i v) ''urn:'' ! 1"
    unfolding 1 2 by simp_all
  then show ?thesis
    unfolding newURN_def Let_def by (simp only:)
qed

text \<open>
  C5, as the code has it. The URN parser fails with \<^verbatim>\<open>ErrInvalidMagnet\<close> unless \<open>urn:\<close> occurs
  exactly once in its input (the split on every occurrence yields two pieces). What stands
  before \<open>urn:\<close> is not examined: the outcome is that of the input with this text removed.
\<close>

theorem newURN_split:
  "(Count v ''urn:'' \<noteq> 1 \<longrightarrow> newURN L ds v = Inl (Err ErrInvalidMagnet))
   \<and> (Index v ''urn:'' = Some i \<longrightarrow> newURN L ds v = newURN L ds (drop i v))"
  using newURN_not_one_urn newURN_drop_before by blast

theorem newURN_split_witness:
  "Count ''sha1:MZXW6==='' ''urn:'' \<noteq> 1
   \<and> newURN reflib HashTypeKeys ''sha1:MZXW6==='' = Inl (Err ErrInvalidMagnet)
   \<and> Index ''XXurn:sha1:MZXW6==='' ''urn:'' = Some 2
   \<and> newURN reflib HashTypeKeys ''XXurn:sha1:MZXW6==='' =
       newURN reflib HashTypeKeys (drop 2 ''XXurn:sha1:MZXW6==='')"
proof -
  have 1: "Count ''sha1:MZXW6==='' ''urn:'' \<noteq> 1" by code_simp
  have 2: "Index ''XXurn:sha1:MZXW6==='' ''urn:'' = Some 2" by code_simp
  from newURN_split [of "''sha1:MZXW6===''" reflib HashTypeKeys 0]
    newURN_split [of "''XXurn:sha1:MZXW6===''" reflib HashTypeKeys 2] 1 2
  show ?thesis by blast
qed

text \<open>The claim as it was stated fails on an input with text before \<open>urn:\<close>: the parser
  returns the URN of the digest.\<close>

theorem text_before_urn_accepted:
  "newURN reflib HashTypeKeys ''XXurn:sha1:YNCKHTQCWBTRNJIV4WNAE52SJUQCZO5C'' =
     Inr \<lparr>Hashes = [\<lparr>Hash_Type = HashSHA1, Hash_Data =
       [195, 68, 163, 206, 2, 176, 103, 22, 165, 21, 229, 154, 2, 119, 82, 77, 32, 44, 187, 162]\<rparr>]\<rparr>"
  by code_simp

subsection \<open>C6: BitPrint\<close>

lemma newURN_range_bitprint:
  assumes "HasPrefix (ToLower L urn) ''bitprint''" "length urn > 8"
  shows "newURN_range L urn HashTypeKeys = Inr (Some HashBitPrint, drop 9 urn)"
proof -
  have k: "''bitprint'' \<in> set HashTypeKeys"
    by (simp add: HashTypeKeys_def HashTypeTable_def)
  have "\<forall>d' \<in> set HashTypeKeys. HasPrefix (ToLower L urn) d' \<longrightarrow> d' = ''bitprint''"
    using tag_unique [OF _ k _ assms(1)] by blast
  with k assms(1) have "newURN_range L urn HashTypeKeys = newURN_range L urn [''bitprint'']"
    by (rule newURN_range_hit)
  then show ?thesis
    using assms by (simp add: HashTypeMap_def HashTypeTable_def eval_nat_numeral)
qed

lemma newURN_bitprint:
  assumes "range_order ds" "Split v ''urn:'' = [pre, urn]"
    and "HasPrefix (ToLower L urn) ''bitprint''" "length urn > 8"
  shows "newURN L ds v =
     (let b = Split (drop 9 urn) ''.'' in
      if length b = 2 then
        (case base32_DecodeString L (b ! 0) of
           Inl err \<Rightarrow> Inl (Err err)
         | Inr data \<Rightarrow>
             (case base32_DecodeString L (b ! 1) of
                Inl err \<Rightarrow> Inl (Err err)
              | Inr data1 \<Rightarrow>
                  Inr \<lparr>Hashes = [\<lparr>Hash_Type = HashSHA1, Hash_Data = data\<rparr>,
                                 \<lparr>Hash_Type = HashTTH, Hash_Data = data1\<rparr>]\<rparr>))
      else Inl (Err ErrInvalidMagnet))"
  unfolding newURN_order [OF assms(1)]
  using assms(2) newURN_range_bitprint [OF assms(3,4)]
  by (simp add: newURN_def Let_def split: sum.splits)

text \<open>
  C6. A BitPrint URN is an input whose split on \<open>urn:\<close> has two pieces, the second starting,
  in any letter case, with the tag \<open>bitprint\<close> and one further byte; its payload is what
  follows that byte. When the payload does not hold exactly one \<open>.\<close> the parser fails with
  \<^verbatim>\<open>ErrInvalidMagnet\<close>. When it is two segments around one \<open>.\<close>, the first error of the two
  base-32 decodings, first segment first, is the outcome; when both decode, the URN holds
  exactly the SHA1 hash of the first segment followed by the TigerTree hash of the second.
\<close>

theorem newURN_BitPrint:
  assumes "range_order ds" "Split v ''urn:'' = [pre, urn]"
    and "HasPrefix (ToLower L urn) ''bitprint''" "length urn > 8"
  shows "(Count (drop 9 urn) ''.'' \<noteq> 1 \<longrightarrow> newURN L ds v = Inl (Err ErrInvalidMagnet))
     \<and> (drop 9 urn = s1 @ ''.'' @ s2 \<and> CHR ''.'' \<notin> set s1 \<and> CHR ''.'' \<notin> set s2 \<longrightarrow>
          newURN L ds v =
            (case base32_DecodeString L s1 of
               Inl err \<Rightarrow> Inl (Err err)
             | Inr data \<Rightarrow>
                 (case base32_DecodeString L s2 of
                    Inl err \<Rightarrow> Inl (Err err)
                  | Inr data1 \<Rightarrow>
                      Inr \<lparr>Hashes = [\<lparr>Hash_Type = HashSHA1, Hash_Data = data\<rparr>,
                                     \<lparr>Hash_Type = HashTTH, Hash_Data = data1\<rparr>]\<rparr>)))"
proof -
  note unf = newURN_bitprint [OF assms]
  have len: "length (Split (drop 9 urn) ''.'') = Suc (Count (drop 9 urn) ''.'')"
    by (rule length_Split) simp
  have a: "newURN L ds v = Inl (Err ErrInvalidMagnet)" if "Count (drop 9 urn) ''.'' \<noteq> 1"
    using that len by (simp add: unf Let_def)
  have b: "newURN L ds v =
            (case base32_DecodeString L s1 of
               Inl err \<Rightarrow> Inl (Err err)
             | Inr data \<Rightarrow>
                 (case base32_DecodeString L s2 of
                    Inl err \<Rightarrow> Inl (Err err)
                  | Inr data1 \<Rightarrow>
                      Inr \<lparr>Hashes = [\<lparr>Hash_Type = HashSHA1, Hash_Data = data\<rparr>,
                                     \<lparr>Hash_Type = HashTTH, Hash_Data = data1\<rparr>]\<rparr>))"
    if "drop 9 urn = s1 @ ''.'' @ s2" "CHR ''.'' \<notin> set s1" "CHR ''.'' \<notin> set s2"
  proof -
    have "Split (drop 9 urn) ''.'' = [s1, s2]"
      using that by (simp add: Split_single_Some Split_single_None)
    then show ?thesis unfolding unf by (simp add: Let_def cong: sum.case_cong)
  qed
  show ?thesis
    using a b by blast
qed

theorem newURN_BitPrint_witness:
  "range_order HashTypeKeys
   \<and> Split ''urn:bitprint:MZXW6===.MZXW6YTBOI======'' ''urn:'' = [[], ''bitprint:MZXW6===.MZXW6YTBOI======'']
   \<and> HasPrefix (ToLower reflib ''bitprint:MZXW6===.MZXW6YTBOI======'') ''bitprint''
   \<and> length ''bitprint:MZXW6===.MZXW6YTBOI======'' > 8
   \<and> drop 9 ''bitprint:MZXW6===.MZXW6YTBOI======'' = ''MZXW6==='' @ ''.'' @ ''MZXW6YTBOI======''
   \<and> CHR ''.'' \<notin> set ''MZXW6===''
   \<and> CHR ''.'' \<notin> set ''MZXW6YTBOI======''
   \<and> newURN reflib HashTypeKeys ''urn:bitprint:MZXW6===.MZXW6YTBOI======'' =
        Inr \<lparr>Hashes = [\<lparr>Hash_Type = HashSHA1, Hash_Data = [102, 111, 111]\<rparr>,
                       \<lparr>Hash_Type = HashTTH, Hash_Data = [102, 111, 111, 98, 97, 114]\<rparr>]\<rparr>
   \<and> Split ''urn:bitprint:MZXW6==='' ''urn:'' = [[], ''bitprint:MZXW6==='']
   \<and> HasPrefix (ToLower reflib ''bitprint:MZXW6==='') ''bitprint''
   \<and> length ''bitprint:MZXW6==='' > 8
   \<and> Count (drop 9 ''bitprint:MZXW6==='') ''.'' \<noteq> 1
   \<and> newURN reflib HashTypeKeys ''urn:bitprint:MZXW6==='' = Inl (Err ErrInvalidMagnet)"
proof -
  have n1: "Split ''urn:bitprint:MZXW6==='' ''urn:'' = [[], ''bitprint:MZXW6==='']"
    by code_simp
  have n2: "HasPrefix (ToLower reflib ''bitprint:MZXW6==='') ''bitprint''"
    by code_simp
  have n3: "length ''bitprint:MZXW6==='' > 8" by simp
  have n4: "Count (drop 9 ''bitprint:MZXW6==='') ''.'' \<noteq> 1" by code_simp
  have n5: "newURN reflib HashTypeKeys ''urn:bitprint:MZXW6==='' = Inl (Err ErrInvalidMagnet)"
    using newURN_BitPrint [OF range_order_HashTypeKeys n1 n2 n3, of "[]" "[]"] n4 by blast
  have 1: "Split ''urn:bitprint:MZXW6===.MZXW6YTBOI======'' ''urn:'' = [[], ''bitprint:MZXW6===.MZXW6YTBOI======'']"
    by code_simp
  have 2: "HasPrefix (ToLower reflib ''bitprint:MZXW6===.MZXW6YTBOI======'') ''bitprint''"
    by code_simp
  have 3: "length ''bitprint:MZXW6===.MZXW6YTBOI======'' > 8" by simp
  have 4: "drop 9 ''bitprint:MZXW6===.MZXW6YTBOI======'' = ''MZXW6==='' @ ''.'' @ ''MZXW6YTBOI======''"
    by simp
  have 5: "CHR ''.'' \<notin> set ''MZXW6===''" by simp
  have 6: "CHR ''.'' \<notin> set ''MZXW6YTBOI======''" by simp
  have 7: "base32_DecodeString reflib ''MZXW6==='' = Inr [102, 111, 111]" by code_simp
  have 8: "base32_DecodeString reflib ''MZXW6YTBOI======'' = Inr [102, 111, 111, 98, 97, 114]"
    by code_simp
  have "newURN reflib HashTypeKeys ''urn:bitprint:MZXW6===.MZXW6YTBOI======'' =
        Inr \<lparr>Hashes = [\<lparr>Hash_Type = HashSHA1, Hash_Data = [102, 111, 111]\<rparr>,
                       \<lparr>Hash_Type = HashTTH, Hash_Data = [102, 111, 111, 98, 97, 114]\<rparr>]\<rparr>"
    using newURN_BitPrint [OF range_order_HashTypeKeys 1 2 3, of "''MZXW6===''" "''MZXW6YTBOI======''"]
      4 5 6 by (simp only: 7 8 sum.case) blast
  with range_order_HashTypeKeys 1 2 3 4 5 6 n1 n2 n3 n4 n5 show ?thesis by blast
qed

subsection \<open>C7: the index of a key\<close>

lemma newMagnetKey_Inr:
  assumes "newMagnetKey k = Inr mk"
  shows "2 \<le> length k \<and> KeyTypeMap (take 2 k) = Some (Key_Type mk) \<and> Key_Type mk \<noteq> KeySuplement
     \<and> Supl mk = []
     \<and> (case Split k ''.'' of
          [c0] \<Rightarrow> Indx mk = 0
        | [c0, c1] \<Rightarrow> Atoi c1 = Inr (Indx mk)
        | _ \<Rightarrow> False)"
proof -
  obtain t where t: "KeyTypeMap (take 2 k) = Some t" and len: "2 \<le> length k"
    using assms by (auto simp: newMagnetKey_def split: if_splits option.splits)
  have ns: "t \<noteq> KeySuplement"
    using assms t len by (auto simp: newMagnetKey_def SplitAfterN_1)
  show ?thesis
    using assms t len ns
    by (auto simp: newMagnetKey_def SplitAfterN_1 Let_def Split_not_Nil
        split: if_splits sum.splits list.splits)
qed

lemma newMagnetKey_many_segments:
  "length (Split k ''.'') > 2 \<Longrightarrow> newMagnetKey k = Inl (Err ErrInvalidMagnet)"
  by (simp add: newMagnetKey_def Let_def split: option.splits)

lemma newMagnetKey_bad_index:
  "length (Split k ''.'') = 2 \<Longrightarrow> Atoi (Split k ''.'' ! 1) = Inl e \<Longrightarrow>
     newMagnetKey k = Inl (Err ErrInvalidMagnet)"
  by (simp add: newMagnetKey_def Let_def split: option.splits)

lemma newMagnetKey_good_index:
  "length (Split k ''.'') = 2 \<Longrightarrow> Atoi (Split k ''.'' ! 1) = Inr i \<Longrightarrow> 2 \<le> length k \<Longrightarrow>
   KeyTypeMap (take 2 k) = Some t \<Longrightarrow> t \<noteq> KeySuplement \<Longrightarrow>
     newMagnetKey k = Inr \<lparr>Key_Type = t, Indx = i, Supl = []\<rparr>"
  by (simp add: newMagnetKey_def Let_def)

text \<open>
  C7, as the code has it. For a key that splits on \<open>.\<close> into two segments, classification
  succeeds only if \<^verbatim>\<open>strconv.Atoi\<close> parses the second segment, and the parsed integer is the
  index; with a recognised prefix other than \<open>x.\<close> it then does succeed. A second segment
  that \<^verbatim>\<open>Atoi\<close> rejects, and a key of more than two segments, fail with \<^verbatim>\<open>ErrInvalidMagnet\<close>.
  \<^verbatim>\<open>Atoi\<close> reads an optional sign, so a negative index is accepted and stored.
\<close>

theorem newMagnetKey_index:
  "(length (Split k ''.'') = 2 \<and> newMagnetKey k = Inr mk \<longrightarrow>
      Atoi (Split k ''.'' ! 1) = Inr (Indx mk))
   \<and> (length (Split k ''.'') = 2 \<and> Atoi (Split k ''.'' ! 1) = Inr i \<and> 2 \<le> length k
        \<and> KeyTypeMap (take 2 k) = Some t \<and> t \<noteq> KeySuplement \<longrightarrow>
      newMagnetKey k = Inr \<lparr>Key_Type = t, Indx = i, Supl = []\<rparr>)
   \<and> (length (Split k ''.'') = 2 \<and> Atoi (Split k ''.'' ! 1) = Inl e \<longrightarrow>
      newMagnetKey k = Inl (Err ErrInvalidMagnet))
   \<and> (length (Split k ''.'') > 2 \<longrightarrow> newMagnetKey k = Inl (Err ErrInvalidMagnet))"
proof -
  have "Atoi (Split k ''.'' ! 1) = Inr (Indx mk)"
    if "length (Split k ''.'') = 2" "newMagnetKey k = Inr mk"
    using newMagnetKey_Inr [OF that(2)] that(1) by (auto split: list.splits)
  then show ?thesis
    using newMagnetKey_good_index newMagnetKey_bad_index newMagnetKey_many_segments by blast
qed

theorem newMagnetKey_index_witness:
  "length (Split ''xt.-1'' ''.'') = 2
   \<and> newMagnetKey ''xt.-1'' = Inr \<lparr>Key_Type = KeyExactTopic, Indx = - 1, Supl = []\<rparr>
   \<and> Atoi (Split ''xt.-1'' ''.'' ! 1) = Inr (- 1)
   \<and> KeyTypeMap (take 2 ''xt.-1'') = Some KeyExactTopic
   \<and> length (Split ''xt.a'' ''.'') = 2
   \<and> Atoi (Split ''xt.a'' ''.'' ! 1) = Inl NumError_ErrSyntax
   \<and> newMagnetKey ''xt.a'' = Inl (Err ErrInvalidMagnet)
   \<and> length (Split ''xt.1.2'' ''.'') > 2
   \<and> newMagnetKey ''xt.1.2'' = Inl (Err ErrInvalidMagnet)"
proof -
  have 1: "length (Split ''xt.-1'' ''.'') = 2" by code_simp
  have 2: "Atoi (Split ''xt.-1'' ''.'' ! 1) = Inr (- 1)" by code_simp
  have 3: "KeyTypeMap (take 2 ''xt.-1'') = Some KeyExactTopic" by code_simp
  have 4: "length (Split ''xt.a'' ''.'') = 2" by code_simp
  have 5: "Atoi (Split ''xt.a'' ''.'' ! 1) = Inl NumError_ErrSyntax" by code_simp
  have 6: "length (Split ''xt.1.2'' ''.'') > 2" by code_simp
  have 7: "2 \<le> length ''xt.-1''" by simp
  have 8: "KeyExactTopic \<noteq> KeySuplement" by simp
  note inst = newMagnetKey_index [of _ "\<lparr>Key_Type = KeyExactTopic, Indx = - 1, Supl = []\<rparr>"
        "- 1" KeyExactTopic NumError_ErrSyntax]
  have a: "newMagnetKey ''xt.-1'' = Inr \<lparr>Key_Type = KeyExactTopic, Indx = - 1, Supl = []\<rparr>"
    using inst [of "''xt.-1''"] 1 2 3 7 8 by blast
  have b: "newMagnetKey ''xt.a'' = Inl (Err ErrInvalidMagnet)"
    using inst [of "''xt.a''"] 4 5 by blast
  have c: "newMagnetKey ''xt.1.2'' = Inl (Err ErrInvalidMagnet)"
    using inst [of "''xt.1.2''"] 6 by blast
  from 1 2 3 4 5 6 a b c show ?thesis by blast
qed

text \<open>The claim as it was stated fails on a negative second segment.\<close>

theorem negative_index_accepted:
  "newMagnetKey ''xt.-1'' = Inr \<lparr>Key_Type = KeyExactTopic, Indx = - 1, Supl = []\<rparr>"
  by code_simp

subsection \<open>C8: the exact length\<close>

text \<open>\<^verbatim>\<open>strconv.ParseInt\<close> accepts exactly the numeric strings whose value is a 64-bit integer,
  and returns that value.\<close>

lemma ParseUintLoop_Inl: "ParseUintLoop n s = Inl e \<Longrightarrow> InvalidInteger e"
  by (induction s arbitrary: n) (auto simp: InvalidInteger_def split: if_splits)

lemma ParseUint_Inl: "ParseUint s = Inl e \<Longrightarrow> InvalidInteger e"
  by (auto simp: ParseUint_def InvalidInteger_def split: if_splits dest: ParseUintLoop_Inl)

lemma ParseInt_Inl: "ParseInt s = Inl e \<Longrightarrow> InvalidInteger e"
  by (auto simp: ParseInt_def Let_def InvalidInteger_def
      split: if_splits sum.splits dest: ParseUint_Inl)

lemma ParseUintLoop_Inr_digits: "ParseUintLoop n s = Inr u \<Longrightarrow> list_all isDigit s"
  by (induction s arbitrary: n) (auto split: if_splits)

lemma digits_mono: "n \<le> foldl (\<lambda>n c. n * 10 + digitVal c) n s"
proof (induction s arbitrary: n)
  case Nil
  show ?case by simp
next
  case (Cons c cs)
  have "n \<le> n * 10 + digitVal c" by simp
  also have "\<dots> \<le> foldl (\<lambda>n c. n * 10 + digitVal c) (n * 10 + digitVal c) cs" by (rule Cons.IH)
  finally show ?case by simp
qed

lemma ParseUintLoop_digits:
  assumes "list_all isDigit s" "n \<le> maxUint64"
  shows "ParseUintLoop n s =
     (if foldl (\<lambda>n c. n * 10 + digitVal c) n s \<le> maxUint64
      then Inr (foldl (\<lambda>n c. n * 10 + digitVal c) n s) else Inl NumError_ErrRange)"
  using assms
proof (induction s arbitrary: n)
  case Nil
  then show ?case by simp
next
  case (Cons c cs)
  let ?n = "n * 10 + digitVal c"
  from Cons.prems have d: "isDigit c" and ds: "list_all isDigit cs" by simp_all
  have m: "?n \<le> foldl (\<lambda>n c. n * 10 + digitVal c) ?n cs" by (rule digits_mono)
  show ?case
  proof (cases "?n \<le> maxUint64")
    case True
    then have "\<not> n \<ge> maxUint64 div 10 + 1" by (simp add: maxUint64_def)
    with True d Cons.IH [OF ds True] show ?thesis by simp
  next
    case False
    with m have "\<not> foldl (\<lambda>n c. n * 10 + digitVal c) ?n cs \<le> maxUint64" by simp
    with False d show ?thesis by simp
  qed
qed

lemma ParseUint_digits:
  assumes "t \<noteq> []" "list_all isDigit t"
  shows "ParseUint t = (if spec_digits t \<le> maxUint64 then Inr (spec_digits t) else Inl NumError_ErrRange)"
  using assms ParseUintLoop_digits [OF assms(2), of 0]
  by (simp add: ParseUint_def spec_digits_def maxUint64_def)

lemma ParseInt_numeric:
  assumes "spec_numeric s"
  shows "ParseInt s = (if in_int64 (spec_value s) then Inr (spec_value s) else Inl NumError_ErrRange)"
proof -
  from assms have ne: "s \<noteq> []" by (auto simp: spec_numeric_def)
  let ?t = "if hd s = CHR ''+'' \<or> hd s = CHR ''-'' then tl s else s"
  from assms ne have t: "?t \<noteq> []" "list_all isDigit ?t"
    by (auto simp: spec_numeric_def Let_def split: if_splits)
  note u = ParseUint_digits [OF t]
  show ?thesis
  proof (cases "hd s = CHR ''-''")
    case True
    then have v: "spec_value s = - int (spec_digits (tl s))" using ne by (simp add: spec_value_def)
    show ?thesis
      using True ne u unfolding v
      by (auto simp: ParseInt_def Let_def in_int64_def cutoffInt64_def maxUint64_def)
  next
    case False
    then have v: "spec_value s = int (spec_digits ?t)" using ne by (simp add: spec_value_def)
    show ?thesis
      using False ne u unfolding v
      by (auto simp: ParseInt_def Let_def in_int64_def cutoffInt64_def maxUint64_def)
  qed
qed

lemma ParseInt_Inr:
  assumes "ParseInt s = Inr i"
  shows "spec_numeric s \<and> i = spec_value s \<and> in_int64 i"
proof -
  from assms have ne: "s \<noteq> []" by (auto simp: ParseInt_def)
  let ?t = "if hd s = CHR ''+'' \<or> hd s = CHR ''-'' then tl s else s"
  from assms ne obtain un where un: "ParseUint ?t = Inr un"
    by (auto simp: ParseInt_def Let_def split: sum.splits)
  then have "?t \<noteq> []" "list_all isDigit ?t"
    by (auto simp: ParseUint_def split: if_splits dest: ParseUintLoop_Inr_digits)
  with ne have num: "spec_numeric s" by (simp add: spec_numeric_def)
  from ParseInt_numeric [OF num] assms show ?thesis
    using num by (auto split: if_splits)
qed

lemma ParseInt_not_numeric:
  assumes "\<not> spec_numeric s"
  shows "\<exists>e. ParseInt s = Inl e \<and> InvalidInteger e"
proof (cases "ParseInt s")
  case (Inl e)
  then show ?thesis by (simp add: ParseInt_Inl)
next
  case (Inr i)
  with assms ParseInt_Inr show ?thesis by blast
qed

text \<open>The pieces the code cuts a token into, in the words of the specification.\<close>

lemma Split_single_first: "Split s [c] ! 0 = takeWhile (\<lambda>x. x \<noteq> c) s"
proof (cases "c \<in> set s")
  case False
  then have tw: "takeWhile (\<lambda>x. x \<noteq> c) s = s" by (auto simp: takeWhile_eq_all_conv)
  have "Split s [c] = [s]" using False by (rule Split_single_None)
  then show ?thesis unfolding tw by simp
next
  case True
  then obtain s1 s2 where s: "s = s1 @ c # s2" and n: "c \<notin> set s1"
    by (auto dest: split_list_first)
  from n have tw: "takeWhile (\<lambda>x. x \<noteq> c) (s1 @ c # s2) = s1"
    by (subst takeWhile_append2) auto
  have "Split (s1 @ c # s2) [c] = s1 # Split s2 [c]" using n by (rule Split_single_Some)
  then show ?thesis unfolding s tw by simp
qed

lemma Split_token:
  assumes "CHR ''='' \<in> set t"
  shows "Split t ''='' ! 0 = spec_key t" and "Split t ''='' ! 1 = value_read (spec_val t)"
proof -
  from assms obtain s1 s2 where t: "t = s1 @ CHR ''='' # s2" and n: "CHR ''='' \<notin> set s1"
    by (auto dest: split_list_first)
  from n have d: "dropWhile (\<lambda>c. c \<noteq> CHR ''='') (s1 @ CHR ''='' # s2) = CHR ''='' # s2"
    by (subst dropWhile_append2) auto
  show "Split t ''='' ! 0 = spec_key t"
    by (simp add: Split_single_first spec_key_def)
  show "Split t ''='' ! 1 = value_read (spec_val t)"
    using n unfolding t
    by (simp add: Split_single_Some Split_single_first spec_val_def value_read_def d)
qed

lemma Split_two_pieces: "2 \<le> length (Split t [c]) \<Longrightarrow> c \<in> set t"
  by (rule ccontr) (simp add: Split_single_None)

lemma value_read_whole: "CHR ''='' \<notin> set v \<Longrightarrow> value_read v = v"
  by (auto simp: value_read_def takeWhile_eq_all_conv)

lemma KeyTypeMap_xl: "KeyTypeMap k2 = Some t \<Longrightarrow> (t = KeyExactLength) = (k2 = ''xl'')"
  by (auto simp: KeyTypeMap_def split: if_splits)

lemma parseKeyVal_xl_key:
  assumes "newMagnetKey k = Inr mk" "take 2 k = ''xl''"
  shows "parseKeyVal L ds m k v =
     (case ParseInt v of Inl err \<Rightarrow> Inl (Err err) | Inr u \<Rightarrow> Inr (m\<lparr>ExactLength := u\<rparr>))"
proof -
  from newMagnetKey_Inr [OF assms(1)] have "KeyTypeMap (take 2 k) = Some (Key_Type mk)" by simp
  with assms(2) have "Key_Type mk = KeyExactLength" using KeyTypeMap_xl by blast
  with assms(1) show ?thesis by (simp add: parseKeyVal_def)
qed

lemma parseKeyVal_ExactLength:
  assumes "parseKeyVal L ds m k v = Inr m'"
  shows "ExactLength m' = (if take 2 k = ''xl'' then spec_value v else ExactLength m)"
    and "in_int64 (ExactLength m) \<Longrightarrow> in_int64 (ExactLength m')"
proof -
  from assms obtain mk where mk: "newMagnetKey k = Inr mk"
    by (auto simp: parseKeyVal_def split: sum.splits)
  from newMagnetKey_Inr [OF mk] have "KeyTypeMap (take 2 k) = Some (Key_Type mk)" by simp
  then have xl: "(Key_Type mk = KeyExactLength) = (take 2 k = ''xl'')" by (rule KeyTypeMap_xl)
  show "ExactLength m' = (if take 2 k = ''xl'' then spec_value v else ExactLength m)"
    using assms mk xl
    by (cases "Key_Type mk")
      (auto simp: parseKeyVal_def split: sum.splits if_splits option.splits dest: ParseInt_Inr)
  show "in_int64 (ExactLength m')" if "in_int64 (ExactLength m)"
    using assms mk that
    by (cases "Key_Type mk")
      (auto simp: parseKeyVal_def split: sum.splits if_splits option.splits dest: ParseInt_Inr)
qed

lemma parseMagnet_range_ExactLength:
  assumes "parseMagnet_range L ds m vs = Inr m'"
  shows "ExactLength m' =
      (let xl = filter (\<lambda>kv. take 2 (fst kv) = ''xl'')
                  (map (\<lambda>t. (spec_key t, value_read (spec_val t))) vs)
       in if xl = [] then ExactLength m else spec_value (snd (last xl)))"
  using assms
proof (induction vs arbitrary: m)
  case Nil
  then show ?case by simp
next
  case (Cons v vs)
  let ?k = "Split v ''='' ! 0" and ?x = "Split v ''='' ! 1"
  from Cons.prems obtain m1 where
    0: "2 \<le> length (Split v ''='')" and
    1: "parseKeyVal L ds m ?k ?x = Inr m1" and 2: "parseMagnet_range L ds m1 vs = Inr m'"
    by (auto simp: Let_def split: if_splits sum.splits)
  from 0 have "CHR ''='' \<in> set v" by (rule Split_two_pieces)
  note tk = Split_token [OF this]
  note e = parseKeyVal_ExactLength(1) [OF 1, unfolded tk]
  show ?case
    using Cons.IH [OF 2] e by (simp add: Let_def)
qed

lemma parseMagnet_range_ExactLength_range:
  assumes "parseMagnet_range L ds m vs = Inr m'" and "in_int64 (ExactLength m)"
  shows "in_int64 (ExactLength m')"
  using assms
proof (induction vs arbitrary: m)
  case Nil
  then show ?case by simp
next
  case (Cons v vs)
  let ?k = "Split v ''='' ! 0" and ?x = "Split v ''='' ! 1"
  from Cons.prems(1) obtain m1 where
    1: "parseKeyVal L ds m ?k ?x = Inr m1" and 2: "parseMagnet_range L ds m1 vs = Inr m'"
    by (auto simp: Let_def split: if_splits sum.splits)
  from parseKeyVal_ExactLength(2) [OF 1 Cons.prems(2)] show ?case by (rule Cons.IH [OF 2])
qed

lemma NewMagnet_ExactLength:
  assumes "NewMagnet L ds s = Inr m"
  shows "ExactLength m =
      spec_ExactLength (map (\<lambda>kv. (fst kv, value_read (snd kv))) (spec_tokens s))"
    and "in_int64 (ExactLength m)"
proof -
  from assms have r: "parseMagnet_range L ds Magnet_zero (Split (Split s '':?'' ! 1) ''&'') = Inr m"
    by (auto simp: NewMagnet_def parseMagnet_def Let_def split: if_splits)
  from parseMagnet_range_ExactLength [OF r]
  show "ExactLength m =
      spec_ExactLength (map (\<lambda>kv. (fst kv, value_read (snd kv))) (spec_tokens s))"
    by (simp add: spec_ExactLength_def spec_tokens_def Magnet_zero_def Let_def comp_def)
  from parseMagnet_range_ExactLength_range [OF r]
  show "in_int64 (ExactLength m)"
    by (simp add: Magnet_zero_def in_int64_def cutoffInt64_def)
qed

lemma NewMagnet_ExactLength_whole:
  assumes "NewMagnet L ds s = Inr m"
    and "list_all (\<lambda>kv. CHR ''='' \<notin> set (snd kv)) (spec_tokens s)"
  shows "ExactLength m = spec_ExactLength (spec_tokens s)"
proof -
  have "map (\<lambda>kv. (fst kv, value_read (snd kv))) (spec_tokens s) = spec_tokens s"
    using assms(2) by (intro map_idI) (auto simp: list_all_iff value_read_whole)
  with NewMagnet_ExactLength(1) [OF assms(1)] show ?thesis by simp
qed

text \<open>A query of two valid \<open>xl\<close> tokens.\<close>

lemma Index_None_byte:
  assumes "c \<in> set sep" "c \<notin> set s"
  shows "Index s sep = None"
proof (cases "Index s sep")
  case None
  then show ?thesis .
next
  case (Some i)
  then have "s = take i s @ sep @ drop (i + length sep) s" by (rule Index_Some_decomp)
  then have "set sep \<subseteq> set s" by (metis Un_upper1 Un_upper2 set_append subset_trans)
  with assms show ?thesis by blast
qed

lemma spec_numeric_bytes:
  assumes "spec_numeric v" "c \<in> set v"
  shows "isDigit c \<or> c = CHR ''+'' \<or> c = CHR ''-''"
proof -
  from assms(1) obtain a t where v: "v = a # t" by (cases v) (auto simp: spec_numeric_def)
  from assms(1) v have "list_all isDigit (if a = CHR ''+'' \<or> a = CHR ''-'' then t else a # t)"
    by (auto simp: spec_numeric_def Let_def split: if_splits)
  with assms(2) v show ?thesis by (auto simp: list_all_iff split: if_splits)
qed

lemma spec_numeric_no_separator:
  assumes "spec_numeric v"
  shows "CHR ''&'' \<notin> set v" "CHR ''='' \<notin> set v" "CHR ''?'' \<notin> set v"
  using spec_numeric_bytes [OF assms, of "CHR ''&''"] spec_numeric_bytes [OF assms, of "CHR ''=''"]
    spec_numeric_bytes [OF assms, of "CHR ''?''"]
  by (auto simp: isDigit_def)

lemma parseKeyVal_xl:
  "parseKeyVal L ds m ''xl'' v =
     (case ParseInt v of Inl err \<Rightarrow> Inl (Err err) | Inr u \<Rightarrow> Inr (m\<lparr>ExactLength := u\<rparr>))"
proof -
  have "newMagnetKey ''xl'' = Inr \<lparr>Key_Type = KeyExactLength, Indx = 0, Supl = []\<rparr>" by code_simp
  then show ?thesis by (rule parseKeyVal_xl_key) simp
qed

lemma NewMagnet_two_xl:
  assumes "spec_numeric v1" "in_int64 (spec_value v1)" "spec_numeric v2" "in_int64 (spec_value v2)"
  shows "NewMagnet L ds (''magnet:?xl='' @ v1 @ ''&xl='' @ v2) =
           Inr (Magnet_zero\<lparr>ExactLength := spec_value v2\<rparr>)"
proof -
  let ?q = "''xl='' @ v1 @ ''&xl='' @ v2"
  note n1 = spec_numeric_no_separator [OF assms(1)]
  note n2 = spec_numeric_no_separator [OF assms(3)]
  have i: "Index (''magnet:?'' @ ?q) '':?'' = Some 6"
    by (simp add: HasPrefix_def)
  have "CHR ''?'' \<notin> set ?q" using n1 n2 by simp
  then have "Index ?q '':?'' = None" by (intro Index_None_byte [of "CHR ''?''"]) simp_all
  then have "Split ?q '':?'' = [?q]" by (rule Split_None)
  with Split_Some [OF _ i] have 1: "Split (''magnet:?'' @ ?q) '':?'' = [''magnet'', ?q]"
    by simp
  have "Split ((''xl='' @ v1) @ CHR ''&'' # (''xl='' @ v2)) ''&'' =
      (''xl='' @ v1) # Split (''xl='' @ v2) ''&''"
    using n1 by (intro Split_single_Some) simp
  moreover have "Split (''xl='' @ v2) ''&'' = [''xl='' @ v2]"
    using n2 by (intro Split_single_None) simp
  ultimately have 2: "Split ?q ''&'' = [''xl='' @ v1, ''xl='' @ v2]" by simp
  have 3: "Split (''xl='' @ v) ''='' = [''xl'', v]" if "CHR ''='' \<notin> set v" for v
  proof -
    have "Split (''xl'' @ CHR ''='' # v) ''='' = ''xl'' # Split v ''=''"
      by (intro Split_single_Some) simp
    with that show ?thesis by (simp add: Split_single_None)
  qed
  have p1: "ParseInt v1 = Inr (spec_value v1)" and p2: "ParseInt v2 = Inr (spec_value v2)"
    using assms by (simp_all add: ParseInt_numeric)
  show ?thesis
    using 1 2 3 [OF n1(2)] 3 [OF n2(2)]
    by (simp add: NewMagnet_def parseMagnet_def ToLower_magnet parseKeyVal_xl p1 p2 Magnet_zero_def)
qed

text \<open>
  C8, as the code has it. The value the code reads from a token is the token's text after
  its first \<open>=\<close> as far as the next \<open>=\<close>, if there is one. With the values read so, the exact
  length of a parsed magnet string is the base-10 value of its last \<open>xl\<close> token, a 64-bit
  integer, and zero when the string has no \<open>xl\<close> token; when no value holds a \<open>=\<close> these are
  the tokens' whole values. An \<open>xl\<close> value that is numeric and within 64 bits is accepted and
  stored, replacing what was stored before, so that a string of two valid \<open>xl\<close> tokens parses
  to the value of the second. A numeric value beyond 64 bits and a value that is not
  numeric make the dispatch fail with the error of \<^verbatim>\<open>strconv.ParseInt\<close>.
\<close>

theorem ExactLength_last_wins:
  "(NewMagnet L ds s = Inr m \<longrightarrow>
      ExactLength m = spec_ExactLength (map (\<lambda>kv. (fst kv, value_read (snd kv))) (spec_tokens s))
      \<and> in_int64 (ExactLength m))
   \<and> (NewMagnet L ds s = Inr m \<and> list_all (\<lambda>kv. CHR ''='' \<notin> set (snd kv)) (spec_tokens s) \<longrightarrow>
      ExactLength m = spec_ExactLength (spec_tokens s))
   \<and> (newMagnetKey k = Inr mk \<and> take 2 k = ''xl'' \<and> spec_numeric v \<and> in_int64 (spec_value v) \<longrightarrow>
      parseKeyVal L ds m0 k v = Inr (m0\<lparr>ExactLength := spec_value v\<rparr>))
   \<and> (newMagnetKey k = Inr mk \<and> take 2 k = ''xl'' \<and> spec_numeric v \<and> \<not> in_int64 (spec_value v) \<longrightarrow>
      parseKeyVal L ds m0 k v = Inl (Err NumError_ErrRange))
   \<and> (newMagnetKey k = Inr mk \<and> take 2 k = ''xl'' \<and> \<not> spec_numeric v \<longrightarrow>
      (\<exists>e. parseKeyVal L ds m0 k v = Inl (Err e) \<and> InvalidInteger e))
   \<and> (spec_numeric v1 \<and> in_int64 (spec_value v1) \<and> spec_numeric v2 \<and> in_int64 (spec_value v2) \<longrightarrow>
      NewMagnet L ds (''magnet:?xl='' @ v1 @ ''&xl='' @ v2) =
        Inr (Magnet_zero\<lparr>ExactLength := spec_value v2\<rparr>))"
proof -
  have a: "parseKeyVal L ds m0 k v = Inr (m0\<lparr>ExactLength := spec_value v\<rparr>)"
    if "newMagnetKey k = Inr mk" "take 2 k = ''xl''" "spec_numeric v" "in_int64 (spec_value v)"
    using that by (simp add: parseKeyVal_xl_key ParseInt_numeric)
  have b: "parseKeyVal L ds m0 k v = Inl (Err NumError_ErrRange)"
    if "newMagnetKey k = Inr mk" "take 2 k = ''xl''" "spec_numeric v" "\<not> in_int64 (spec_value v)"
    using that by (simp add: parseKeyVal_xl_key ParseInt_numeric)
  have c: "\<exists>e. parseKeyVal L ds m0 k v = Inl (Err e) \<and> InvalidInteger e"
    if "newMagnetKey k = Inr mk" "take 2 k = ''xl''" "\<not> spec_numeric v"
    using that ParseInt_not_numeric [of v] by (auto simp: parseKeyVal_xl_key)
  show ?thesis
    using NewMagnet_ExactLength NewMagnet_ExactLength_whole NewMagnet_two_xl a b c by blast
qed


theorem ExactLength_last_wins_witness:
  "spec_numeric ''12'' \<and> in_int64 (spec_value ''12'')
   \<and> spec_numeric ''-5'' \<and> in_int64 (spec_value ''-5'') \<and> spec_value ''-5'' = - 5
   \<and> NewMagnet reflib HashTypeKeys ''magnet:?xl=12&xl=-5'' = Inr (Magnet_zero\<lparr>ExactLength := - 5\<rparr>)
   \<and> list_all (\<lambda>kv. CHR ''='' \<notin> set (snd kv)) (spec_tokens ''magnet:?xl=12&xl=-5'')
   \<and> spec_ExactLength (spec_tokens ''magnet:?xl=12&xl=-5'') = - 5
   \<and> newMagnetKey ''xl'' = Inr \<lparr>Key_Type = KeyExactLength, Indx = 0, Supl = []\<rparr>
   \<and> take 2 ''xl'' = ''xl''
   \<and> spec_numeric ''9223372036854775807''
   \<and> in_int64 (spec_value ''9223372036854775807'')
   \<and> parseKeyVal reflib HashTypeKeys Magnet_zero ''xl'' ''9223372036854775807'' =
        Inr (Magnet_zero\<lparr>ExactLength := spec_value ''9223372036854775807''\<rparr>)
   \<and> spec_value ''9223372036854775807'' = 9223372036854775807
   \<and> spec_numeric ''9223372036854775808''
   \<and> \<not> in_int64 (spec_value ''9223372036854775808'')
   \<and> parseKeyVal reflib HashTypeKeys Magnet_zero ''xl'' ''9223372036854775808'' =
        Inl (Err NumError_ErrRange)
   \<and> \<not> spec_numeric ''12a''
   \<and> parseKeyVal reflib HashTypeKeys Magnet_zero ''xl'' ''12a'' = Inl (Err NumError_ErrSyntax)
   \<and> InvalidInteger NumError_ErrSyntax"
proof -
  let ?s = "''magnet:?xl=12&xl=-5''"
  let ?m = "Magnet_zero\<lparr>ExactLength := - 5\<rparr>"
  let ?mk = "\<lparr>Key_Type = KeyExactLength, Indx = 0, Supl = []\<rparr>"
  note w = ExactLength_last_wins [where L = reflib and ds = HashTypeKeys and s = ?s and m = ?m
      and k = "''xl''" and mk = ?mk and ?m0.0 = Magnet_zero and ?v1.0 = "''12''" and ?v2.0 = "''-5''"]
  have n1: "spec_numeric ''12''" by code_simp
  have r1: "in_int64 (spec_value ''12'')" by code_simp
  have n2: "spec_numeric ''-5''" by code_simp
  have r2: "in_int64 (spec_value ''-5'')" by code_simp
  have v2: "spec_value ''-5'' = - 5" by code_simp
  have cat: "''magnet:?xl='' @ ''12'' @ ''&xl='' @ ''-5'' = ?s" by simp
  have p: "NewMagnet reflib HashTypeKeys ?s = Inr ?m"
    using w [of "''12''"] n1 r1 n2 r2 unfolding cat v2 by blast
  have t: "list_all (\<lambda>kv. CHR ''='' \<notin> set (snd kv)) (spec_tokens ?s)" by code_simp
  have e: "spec_ExactLength (spec_tokens ?s) = ExactLength ?m"
    using w [of "''12''"] p t by metis
  have e': "ExactLength ?m = - 5" by simp
  have k: "newMagnetKey ''xl'' = Inr ?mk" by code_simp
  have k2: "take 2 ''xl'' = ''xl''" by simp
  have n3: "spec_numeric ''9223372036854775807''" by code_simp
  have r3: "in_int64 (spec_value ''9223372036854775807'')" by code_simp
  have v3: "spec_value ''9223372036854775807'' = 9223372036854775807" by code_simp
  have a: "parseKeyVal reflib HashTypeKeys Magnet_zero ''xl'' ''9223372036854775807'' =
        Inr (Magnet_zero\<lparr>ExactLength := spec_value ''9223372036854775807''\<rparr>)"
    using w [of "''9223372036854775807''"] k k2 n3 r3 by blast
  have n4: "spec_numeric ''9223372036854775808''" by code_simp
  have r4: "\<not> in_int64 (spec_value ''9223372036854775808'')" by code_simp
  have b: "parseKeyVal reflib HashTypeKeys Magnet_zero ''xl'' ''9223372036854775808'' =
        Inl (Err NumError_ErrRange)"
    using w [of "''9223372036854775808''"] k k2 n4 r4 by blast
  have n5: "\<not> spec_numeric ''12a''" by code_simp
  have "ParseInt ''12a'' = Inl NumError_ErrSyntax" by code_simp
  then have c: "parseKeyVal reflib HashTypeKeys Magnet_zero ''xl'' ''12a'' = Inl (Err NumError_ErrSyntax)"
    by (simp add: parseKeyVal_xl)
  have i: "InvalidInteger NumError_ErrSyntax"
    using w [of "''12a''"] k k2 n5 c by (metis Inl_inject abort.inject(1))
  from n1 r1 n2 r2 v2 p t e e' k k2 n3 r3 v3 a b n4 r4 n5 c i show ?thesis by simp
qed

text \<open>The claim as it was stated fails on a value that holds a \<open>=\<close>: the value of the token
  \<open>xl=5=6\<close> is \<open>5=6\<close>, which is not numeric, and the parse succeeds with the exact length 5.\<close>

lemma NewMagnet_xl_cut:
  "NewMagnet L ds ''magnet:?xl=5=6'' = Inr (Magnet_zero\<lparr>ExactLength := 5\<rparr>)"
proof -
  have 1: "Split ''magnet:?xl=5=6'' '':?'' = [''magnet'', ''xl=5=6'']" by code_simp
  have 2: "Split ''xl=5=6'' ''&'' = [''xl=5=6'']" by code_simp
  have 3: "Split ''xl=5=6'' ''='' = [''xl'', ''5'', ''6'']" by code_simp
  have 4: "ParseInt ''5'' = Inr 5" by code_simp
  show ?thesis
    by (simp add: NewMagnet_def parseMagnet_def 1 2 3 4 ToLower_magnet parseKeyVal_xl)
qed

theorem xl_value_cut_at_separator:
  "NewMagnet reflib HashTypeKeys ''magnet:?xl=5=6'' = Inr (Magnet_zero\<lparr>ExactLength := 5\<rparr>)
   \<and> spec_tokens ''magnet:?xl=5=6'' = [(''xl'', ''5=6'')]
   \<and> \<not> spec_numeric ''5=6''"
proof -
  have 1: "spec_tokens ''magnet:?xl=5=6'' = [(''xl'', ''5=6'')]" by code_simp
  have 2: "\<not> spec_numeric ''5=6''" by code_simp
  from NewMagnet_xl_cut [of reflib HashTypeKeys] 1 2 show ?thesis by blast
qed

subsection \<open>C9: determinism\<close>

text \<open>
  C9. Two parses of the same string give equal results, whatever the order in which each
  of them ranges over the table of scheme tags: the outcome (error, panic or result) is a
  function of the input, because no string has two distinct tags as prefixes.
\<close>

theorem NewMagnet_deterministic:
  assumes "range_order ds" "range_order ds'"
  shows "NewMagnet L ds s = NewMagnet L ds' s
     \<and> (d1 \<in> set HashTypeKeys \<and> d2 \<in> set HashTypeKeys
          \<and> HasPrefix (ToLower L urn) d1 \<and> HasPrefix (ToLower L urn) d2 \<longrightarrow> d1 = d2)"
  using NewMagnet_order [OF assms(1)] NewMagnet_order [OF assms(2)] tag_unique by auto

theorem NewMagnet_deterministic_witness:
  "range_order HashTypeKeys \<and> range_order (rev HashTypeKeys)
   \<and> NewMagnet reflib HashTypeKeys ''magnet:?xt=urn:sha1:YNCKHTQCWBTRNJIV4WNAE52SJUQCZO5C'' =
       NewMagnet reflib (rev HashTypeKeys) ''magnet:?xt=urn:sha1:YNCKHTQCWBTRNJIV4WNAE52SJUQCZO5C''
   \<and> ''sha1'' \<in> set HashTypeKeys
   \<and> HasPrefix (ToLower reflib ''sha1:YNCKHTQCWBTRNJIV4WNAE52SJUQCZO5C'') ''sha1''"
proof -
  have 1: "range_order (rev HashTypeKeys)"
    using range_order_HashTypeKeys by (rule range_order_rev)
  have 2: "''sha1'' \<in> set HashTypeKeys" by (simp add: HashTypeKeys_def HashTypeTable_def)
  have 3: "HasPrefix (ToLower reflib ''sha1:YNCKHTQCWBTRNJIV4WNAE52SJUQCZO5C'') ''sha1''"
    by code_simp
  from NewMagnet_deterministic [OF range_order_HashTypeKeys 1, of reflib] 1 2 3
  show ?thesis by (simp add: range_order_HashTypeKeys)
qed

subsection \<open>C10: a URN that ends with its scheme tag\<close>

lemma NewMagnet_tag_only:
  assumes "range_order ds" "d \<in> set HashTypeKeys"
  shows "NewMagnet L ds (''magnet:?xt=urn:'' @ d) = Inl (Panic SliceBoundsOutOfRange)"
proof -
  have 1: "Split (''magnet:?xt=urn:'' @ d) '':?'' = [''magnet'', ''xt=urn:'' @ d]"
    using assms(2) unfolding HashTypeKeys_def HashTypeTable_def by (auto; code_simp)
  have 2: "Split (''xt=urn:'' @ d) ''&'' = [''xt=urn:'' @ d]"
    using assms(2) unfolding HashTypeKeys_def HashTypeTable_def by (auto; code_simp)
  have 3: "Split (''xt=urn:'' @ d) ''='' = [''xt'', ''urn:'' @ d]"
    using assms(2) unfolding HashTypeKeys_def HashTypeTable_def by (auto; code_simp)
  show ?thesis
    using 1 2 3 newURN_tag_only [OF assms, of L]
    by (simp add: NewMagnet_def parseMagnet_def ToLower_magnet parseKeyVal_def newMagnetKey_xt)
qed

text \<open>
  C10. For a URN whose text after \<open>urn:\<close> is exactly a scheme tag, the slice
  \<^verbatim>\<open>urn[len(d)+1:]\<close> should stay within the string, so that the parser returns. In the code
  the lower bound \<^verbatim>\<open>len(d)+1\<close> is one past the length of the string: the slice expression
  panics, for every tag of the table and in every order of the loop.
\<close>

theorem tag_only_urn_panics:
  assumes "range_order ds" "d \<in> set HashTypeKeys"
  shows "newURN L ds (''urn:'' @ d) = Inl (Panic SliceBoundsOutOfRange)
     \<and> NewMagnet L ds (''magnet:?xt=urn:'' @ d) = Inl (Panic SliceBoundsOutOfRange)"
  using newURN_tag_only [OF assms] NewMagnet_tag_only [OF assms] by simp

theorem tag_only_urn_panics_witness:
  "range_order HashTypeKeys \<and> ''sha1'' \<in> set HashTypeKeys
   \<and> newURN reflib HashTypeKeys ''urn:sha1'' = Inl (Panic SliceBoundsOutOfRange)
   \<and> NewMagnet reflib HashTypeKeys ''magnet:?xt=urn:sha1'' = Inl (Panic SliceBoundsOutOfRange)"
proof -
  have 1: "''sha1'' \<in> set HashTypeKeys" by (simp add: HashTypeKeys_def HashTypeTable_def)
  from tag_only_urn_panics [OF range_order_HashTypeKeys 1, of reflib] 1
  show ?thesis by (simp add: range_order_HashTypeKeys)
qed

end
